theory Spec2Isabelle
  imports Main
begin

text \<open>
  A model of \<^verbatim>\<open>main.go\<close> of the tatatext helper: a local HTTP server that extracts the
  bundled \<^verbatim>\<open>yt-dlp\<close> binary on first run, keeps it up to date from the release feed in a
  background loop, and answers \<^verbatim>\<open>/ping\<close> and \<^verbatim>\<open>/audio\<close>. The functions of the program
  are pure functions here: the two globals, the files and a trace of effects are passed as
  a state, and the answers of the network, of subprocesses and of the file system are
  parameters. The library functions the program relies on for its string handling are
  modelled after the Go standard library.
\<close>

section \<open>Go strings: UTF-8 decoding and encoding\<close>

text \<open>
  A Go \<^verbatim>\<open>string\<close> is a sequence of bytes; it is modelled as a \<^typ>\<open>string\<close>
  (a list of 8-bit \<^typ>\<open>char\<close>), and a byte is read as a number with \<^term>\<open>of_char\<close>.
  A \<^verbatim>\<open>rune\<close> is a code point, a \<^typ>\<open>nat\<close> here (decoding never yields a negative
  rune).

  \<^verbatim>\<open>for _, r := range s\<close> decodes one rune at a time as \<^verbatim>\<open>utf8.DecodeRuneInString\<close>
  does: a well-formed sequence of one to four bytes yields its code point and its width,
  anything else yields \<^verbatim>\<open>RuneError\<close> (U+FFFD) and width 1.
  \<^verbatim>\<open>acceptRange\<close> is the table \<^verbatim>\<open>first\<close>/\<^verbatim>\<open>acceptRanges\<close> of package
  \<^verbatim>\<open>unicode/utf8\<close>: for a leading byte, the length of the sequence and the range the second
  byte must lie in. The masks \<^verbatim>\<open>b & 0x1F\<close>, \<^verbatim>\<open>b & 0x3F\<close> and the shifts of the Go
  source are written as \<open>mod\<close> and multiplication.
\<close>

definition RuneError :: nat where
  "RuneError = 0xFFFD"

fun acceptRange :: "nat \<Rightarrow> (nat \<times> nat \<times> nat) option" where
  "acceptRange s0 =
     (if 0xC2 \<le> s0 \<and> s0 \<le> 0xDF then Some (2, 0x80, 0xBF)
      else if s0 = 0xE0 then Some (3, 0xA0, 0xBF)
      else if 0xE1 \<le> s0 \<and> s0 \<le> 0xEC then Some (3, 0x80, 0xBF)
      else if s0 = 0xED then Some (3, 0x80, 0x9F)
      else if 0xEE \<le> s0 \<and> s0 \<le> 0xEF then Some (3, 0x80, 0xBF)
      else if s0 = 0xF0 then Some (4, 0x90, 0xBF)
      else if 0xF1 \<le> s0 \<and> s0 \<le> 0xF3 then Some (4, 0x80, 0xBF)
      else if s0 = 0xF4 then Some (4, 0x80, 0x8F)
      else None)"

definition DecodeRuneInString :: "string \<Rightarrow> nat \<times> nat" where
  "DecodeRuneInString s =
     (case s of
        [] \<Rightarrow> (RuneError, 0)
      | c0 # _ \<Rightarrow>
          let s0 = of_char c0 in
          if s0 < 0x80 then (s0, 1)
          else (case acceptRange s0 of
             None \<Rightarrow> (RuneError, 1)
           | Some (sz, lo, hi) \<Rightarrow>
               if length s < sz then (RuneError, 1)
               else let s1 = of_char (s ! 1) in
               if s1 < lo \<or> hi < s1 then (RuneError, 1)
               else if sz \<le> 2 then ((s0 mod 32) * 64 + s1 mod 64, 2)
               else let s2 = of_char (s ! 2) in
               if s2 < 0x80 \<or> 0xBF < s2 then (RuneError, 1)
               else if sz \<le> 3 then ((s0 mod 16) * 4096 + (s1 mod 64) * 64 + s2 mod 64, 3)
               else let s3 = of_char (s ! 3) in
               if s3 < 0x80 \<or> 0xBF < s3 then (RuneError, 1)
               else ((s0 mod 8) * 262144 + (s1 mod 64) * 4096 + (s2 mod 64) * 64 + s3 mod 64, 4)))"

definition AppendRune :: "string \<Rightarrow> nat \<Rightarrow> string" where
  "AppendRune p r =
     (if r \<le> 0x7F then p @ [char_of r]
      else if r \<le> 0x7FF then p @ [char_of (0xC0 + r div 64), char_of (0x80 + r mod 64)]
      else if r < 0xD800 \<or> (0xDFFF < r \<and> r \<le> 0xFFFF) then
        p @ [char_of (0xE0 + r div 4096), char_of (0x80 + (r div 64) mod 64), char_of (0x80 + r mod 64)]
      else if 0xFFFF < r \<and> r \<le> 0x10FFFF then
        p @ [char_of (0xF0 + r div 262144), char_of (0x80 + (r div 4096) mod 64),
             char_of (0x80 + (r div 64) mod 64), char_of (0x80 + r mod 64)]
      else p @ [CHR 0xEF, CHR 0xBF, CHR 0xBD])"

lemma acceptRange_SomeD:
  assumes "acceptRange a = Some (sz, lo, hi)"
  shows "0xC2 \<le> a" and "a \<le> 0xF4" and "0x80 \<le> lo" and "hi \<le> 0xBF"
    and "sz = 2 \<or> sz = 3 \<or> sz = 4"
    and "sz = 2 \<Longrightarrow> a \<le> 0xDF"
    and "sz = 3 \<Longrightarrow> 0xE0 \<le> a \<and> a \<le> 0xEF \<and> (a = 0xE0 \<longrightarrow> lo = 0xA0) \<and> (a = 0xED \<longrightarrow> hi = 0x9F)"
    and "sz = 4 \<Longrightarrow> 0xF0 \<le> a \<and> (a = 0xF0 \<longrightarrow> lo = 0x90) \<and> (a = 0xF4 \<longrightarrow> hi = 0x8F)"
  using assms by (auto split: if_splits)

declare acceptRange.simps [simp del]

lemma Decode_Nil: "DecodeRuneInString [] = (RuneError, 0)"
  by (simp add: DecodeRuneInString_def)

lemma Decode_ascii: "of_char c < (0x80::nat) \<Longrightarrow> DecodeRuneInString (c # t) = (of_char c, 1)"
  by (simp add: DecodeRuneInString_def)

lemma Decode_lead_None:
  "\<not> of_char c < (0x80::nat) \<Longrightarrow> acceptRange (of_char c) = None \<Longrightarrow>
   DecodeRuneInString (c # t) = (RuneError, 1)"
  by (simp add: DecodeRuneInString_def)

lemma Decode_lead_Some:
  "\<not> of_char c < (0x80::nat) \<Longrightarrow> acceptRange (of_char c) = Some (sz, lo, hi) \<Longrightarrow>
   DecodeRuneInString (c # t) =
     (let s = c # t; s0 = of_char c in
      if length s < sz then (RuneError, 1)
               else let s1 = of_char (s ! 1) in
               if s1 < lo \<or> hi < s1 then (RuneError, 1)
               else if sz \<le> 2 then ((s0 mod 32) * 64 + s1 mod 64, 2)
               else let s2 = of_char (s ! 2) in
               if s2 < 0x80 \<or> 0xBF < s2 then (RuneError, 1)
               else if sz \<le> 3 then ((s0 mod 16) * 4096 + (s1 mod 64) * 64 + s2 mod 64, 3)
               else let s3 = of_char (s ! 3) in
               if s3 < 0x80 \<or> 0xBF < s3 then (RuneError, 1)
               else ((s0 mod 8) * 262144 + (s1 mod 64) * 4096 + (s2 mod 64) * 64 + s3 mod 64, 4))"
  by (simp add: DecodeRuneInString_def Let_def)

lemma width_cases:
  assumes "s \<noteq> []"
  shows "snd (DecodeRuneInString s) = 1 \<or>
         (snd (DecodeRuneInString s) \<le> length s \<and> 2 \<le> snd (DecodeRuneInString s)
            \<and> snd (DecodeRuneInString s) \<le> 4)"
proof -
  obtain c t where s: "s = c # t" using assms by (cases s) auto
  show ?thesis
  proof (cases "of_char c < (0x80::nat)")
    case True
    then show ?thesis by (simp add: s Decode_ascii)
  next
    case False
    show ?thesis
    proof (cases "acceptRange (of_char c)")
      case None
      with False show ?thesis by (simp add: s Decode_lead_None)
    next
      case (Some x)
      obtain sz lo hi where x: "x = (sz, lo, hi)" by (cases x) auto
      from acceptRange_SomeD(5)[OF Some[unfolded x]] False Some x
      show ?thesis
        by (auto simp add: s Decode_lead_Some Let_def Suc_le_eq)
    qed
  qed
qed

lemma width_pos: "s \<noteq> [] \<Longrightarrow> 1 \<le> snd (DecodeRuneInString s)"
  using width_cases [of s] by auto

lemma width_le: "snd (DecodeRuneInString s) \<le> length s"
proof (cases "s = []")
  case True then show ?thesis by (simp add: Decode_Nil)
next
  case False
  then have "1 \<le> length s" by (cases s) auto
  with width_cases [OF False] show ?thesis by auto
qed


lemma Decode_cases [consumes 1, case_names ascii bad two three four]:
  assumes "s \<noteq> []"
  obtains (ascii) c t where "s = c # t" "of_char c < (128::nat)"
      "\<And>u. DecodeRuneInString (c # u) = (of_char c, 1)"
  | (bad) "DecodeRuneInString s = (RuneError, 1)"
  | (two) c0 c1 t where "s = c0 # c1 # t"
      "194 \<le> (of_char c0 :: nat)" "of_char c0 \<le> (223::nat)"
      "128 \<le> (of_char c1 :: nat)" "of_char c1 \<le> (191::nat)"
      "\<And>u. DecodeRuneInString (c0 # c1 # u) = ((of_char c0 mod 32) * 64 + of_char c1 mod 64, 2)"
  | (three) c0 c1 c2 t where "s = c0 # c1 # c2 # t"
      "224 \<le> (of_char c0 :: nat)" "of_char c0 \<le> (239::nat)"
      "128 \<le> (of_char c1 :: nat)" "of_char c1 \<le> (191::nat)"
      "of_char c0 = (224::nat) \<longrightarrow> 160 \<le> (of_char c1 :: nat)"
      "of_char c0 = (237::nat) \<longrightarrow> of_char c1 \<le> (159::nat)"
      "128 \<le> (of_char c2 :: nat)" "of_char c2 \<le> (191::nat)"
      "\<And>u. DecodeRuneInString (c0 # c1 # c2 # u) =
         ((of_char c0 mod 16) * 4096 + (of_char c1 mod 64) * 64 + of_char c2 mod 64, 3)"
  | (four) c0 c1 c2 c3 t where "s = c0 # c1 # c2 # c3 # t"
      "240 \<le> (of_char c0 :: nat)" "of_char c0 \<le> (244::nat)"
      "128 \<le> (of_char c1 :: nat)" "of_char c1 \<le> (191::nat)"
      "of_char c0 = (240::nat) \<longrightarrow> 144 \<le> (of_char c1 :: nat)"
      "of_char c0 = (244::nat) \<longrightarrow> of_char c1 \<le> (143::nat)"
      "128 \<le> (of_char c2 :: nat)" "of_char c2 \<le> (191::nat)"
      "128 \<le> (of_char c3 :: nat)" "of_char c3 \<le> (191::nat)"
      "\<And>u. DecodeRuneInString (c0 # c1 # c2 # c3 # u) =
         ((of_char c0 mod 8) * 262144 + (of_char c1 mod 64) * 4096 + (of_char c2 mod 64) * 64
            + of_char c3 mod 64, 4)"
proof -
  obtain c t where s: "s = c # t" using assms by (cases s) auto
  show thesis
  proof (cases "of_char c < (0x80::nat)")
    case True
    then show thesis using ascii [of c t] s by (simp add: Decode_ascii)
  next
    case hi: False
    show thesis
    proof (cases "acceptRange (of_char c)")
      case None
      with hi show thesis using bad by (simp add: s Decode_lead_None)
    next
      case (Some x)
      obtain sz lo hi' where x: "x = (sz, lo, hi')" by (cases x) auto
      note ar = Some [unfolded x]
      note D = acceptRange_SomeD [OF ar]
      note unf = Decode_lead_Some [OF hi ar]
      show thesis
      proof (cases "length s < sz \<or> of_char (s ! 1) < lo \<or> hi' < of_char (s ! 1)")
        case True
        then have "DecodeRuneInString s = (RuneError, 1)"
          unfolding s unf by (auto simp: Let_def)
        then show thesis by (rule bad)
      next
        case ok1: False
        from ok1 D(5) obtain c1 t1 where t: "t = c1 # t1"
          unfolding s by (cases t) auto
        from ok1 have c1: "lo \<le> of_char c1" "of_char c1 \<le> hi'"
          unfolding s t by auto
        have c1': "128 \<le> (of_char c1 :: nat)" "of_char c1 \<le> (191::nat)"
          using c1 D(3,4) by auto
        show thesis
        proof (cases "sz = 2")
          case True
          have "\<And>u. DecodeRuneInString (c # c1 # u) = ((of_char c mod 32) * 64 + of_char c1 mod 64, 2)"
            using c1 True by (simp add: unf Let_def)
          then show thesis
            using two [of c c1 t1] s t c1' D(1) D(6) [OF True] by simp
        next
          case n2: False
          show thesis
          proof (cases "length s < 3 \<or> of_char (s ! 2) < (0x80::nat) \<or> 0xBF < (of_char (s ! 2) :: nat)")
            case True
            with ok1 n2 D(5) have "DecodeRuneInString s = (RuneError, 1)"
              unfolding s unf by (auto simp: Let_def)
            then show thesis by (rule bad)
          next
            case ok2: False
            from ok2 obtain c2 t2 where t1: "t1 = c2 # t2"
              unfolding s t by (cases t1) auto
            from ok2 have c2: "128 \<le> (of_char c2 :: nat)" "of_char c2 \<le> (191::nat)"
              unfolding s t t1 by auto
            show thesis
            proof (cases "sz = 3")
              case True
              have "\<And>u. DecodeRuneInString (c # c1 # c2 # u) =
                  ((of_char c mod 16) * 4096 + (of_char c1 mod 64) * 64 + of_char c2 mod 64, 3)"
                using c1 c2 True by (simp add: unf Let_def)
              then show thesis
                using three [of c c1 c2 t2] s t t1 c1 c1' c2 D(7) [OF True] by auto
            next
              case n3: False
              with n2 D(5) have sz4: "sz = 4" by auto
              show thesis
              proof (cases "length s < 4 \<or> of_char (s ! 3) < (0x80::nat) \<or> 0xBF < (of_char (s ! 3) :: nat)")
                case True
                with ok1 ok2 sz4 have "DecodeRuneInString s = (RuneError, 1)"
                  unfolding s unf by (auto simp: Let_def)
                then show thesis by (rule bad)
              next
                case ok3: False
                from ok3 obtain c3 t3 where t2: "t2 = c3 # t3"
                  unfolding s t t1 by (cases t2) auto
                from ok3 have c3: "128 \<le> (of_char c3 :: nat)" "of_char c3 \<le> (191::nat)"
                  unfolding s t t1 t2 by auto
                have "\<And>u. DecodeRuneInString (c # c1 # c2 # c3 # u) =
                  ((of_char c mod 8) * 262144 + (of_char c1 mod 64) * 4096 + (of_char c2 mod 64) * 64
                    + of_char c3 mod 64, 4)"
                  using c1 c2 c3 sz4 by (simp add: unf Let_def)
                then show thesis
                  using four [of c c1 c2 c3 t3] s t t1 t2 c1 c1' c2 c3 D(2) D(8) [OF sz4] by auto
              qed
            qed
          qed
        qed
      qed
    qed
  qed
qed


lemma mod_window:
  fixes a k m :: nat
  assumes "k \<le> a" "a < k + m" "m dvd k"
  shows "a mod m = a - k"
proof -
  obtain x where x: "a = k + x" using assms(1) le_Suc_ex by blast
  with assms(2) have "x < m" by simp
  moreover have "(k + x) mod m = x mod m"
    using assms(3) by (metis dvd_eq_mod_eq_0 mod_add_left_eq add_0)
  ultimately show ?thesis using x by simp
qed

lemma divmod_step:
  fixes q z m :: nat
  assumes "z < m"
  shows "(q * m + z) div m = q" and "(q * m + z) mod m = z"
  using assms by simp_all

lemma AppendRune_two:
  fixes a b :: nat
  assumes "194 \<le> a" "a \<le> 223" "128 \<le> b" "b \<le> 191"
  shows "AppendRune p ((a mod 32) * 64 + b mod 64) = p @ [char_of a, char_of b]"
    and "127 < (a mod 32) * 64 + b mod 64"
proof -
  define x where "x = a - 192"
  define y where "y = b - 128"
  have a: "a = 192 + x" and x: "2 \<le> x" "x < 32" using assms by (simp_all add: x_def)
  have b: "b = 128 + y" and y: "y < 64" using assms by (simp_all add: y_def)
  have ma: "a mod 32 = x" using mod_window [of 192 a 32] assms by (simp add: x_def)
  have mb: "b mod 64 = y" using mod_window [of 128 b 64] assms by (simp add: y_def)
  have r: "(a mod 32) * 64 + b mod 64 = x * 64 + y" by (simp add: ma mb)
  have rng: "127 < x * 64 + y" "x * 64 + y \<le> 2047" using x y by simp_all
  have dm: "(x * 64 + y) div 64 = x" "(x * 64 + y) mod 64 = y" using y by simp_all
  show "127 < (a mod 32) * 64 + b mod 64" using rng r by simp
  show "AppendRune p ((a mod 32) * 64 + b mod 64) = p @ [char_of a, char_of b]"
    unfolding r AppendRune_def using rng x y by (simp add: dm a b)
qed

lemma AppendRune_three:
  fixes a b c :: nat
  assumes "224 \<le> a" "a \<le> 239" "128 \<le> b" "b \<le> 191" "128 \<le> c" "c \<le> 191"
    and "a = 224 \<longrightarrow> 160 \<le> b" and "a = 237 \<longrightarrow> b \<le> 159"
  shows "AppendRune p ((a mod 16) * 4096 + (b mod 64) * 64 + c mod 64)
           = p @ [char_of a, char_of b, char_of c]"
    and "127 < (a mod 16) * 4096 + (b mod 64) * 64 + c mod 64"
proof -
  define x where "x = a - 224"
  define y where "y = b - 128"
  define z where "z = c - 128"
  have a: "a = 224 + x" and x: "x < 16" using assms by (simp_all add: x_def)
  have b: "b = 128 + y" and y: "y < 64" using assms by (simp_all add: y_def)
  have c: "c = 128 + z" and z: "z < 64" using assms by (simp_all add: z_def)
  have x0: "x = 0 \<longrightarrow> 32 \<le> y" using assms(7) a b by simp
  have x13: "x = 13 \<longrightarrow> y \<le> 31" using assms(8) a b by simp
  have ma: "a mod 16 = x" using mod_window [of 224 a 16] assms by (simp add: x_def)
  have mb: "b mod 64 = y" using mod_window [of 128 b 64] assms by (simp add: y_def)
  have mc: "c mod 64 = z" using mod_window [of 128 c 64] assms by (simp add: z_def)
  define r where "r = x * 4096 + y * 64 + z"
  have r: "(a mod 16) * 4096 + (b mod 64) * 64 + c mod 64 = r" by (simp add: ma mb mc r_def)
  have lo: "2047 < r"
  proof (cases "x = 0")
    case True with x0 show ?thesis by (simp add: r_def)
  next
    case False then show ?thesis by (simp add: r_def)
  qed
  have rng: "r < 55296 \<or> (57343 < r \<and> r \<le> 65535)"
  proof -
    consider "x < 13" | "x = 13" | "13 < x" by linarith
    then show ?thesis
    proof cases
      case 1 then show ?thesis using y z by (simp add: r_def)
    next
      case 2 then show ?thesis using x13 z by (simp add: r_def)
    next
      case 3 then show ?thesis using x y z by (simp add: r_def)
    qed
  qed
  have r1: "r = x * 4096 + (y * 64 + z)" by (simp add: r_def)
  have r2: "r = (x * 64 + y) * 64 + z" by (simp add: r_def)
  have yz: "y * 64 + z < 4096" using y z by simp
  have d1: "r div 4096 = x" by (subst r1) (rule divmod_step(1) [OF yz])
  have d2: "r div 64 = x * 64 + y" by (subst r2) (rule divmod_step(1) [OF z])
  have d3: "r mod 64 = z" by (subst r2) (rule divmod_step(2) [OF z])
  have d4: "(x * 64 + y) mod 64 = y" by (rule divmod_step(2) [OF y])
  show "127 < (a mod 16) * 4096 + (b mod 64) * 64 + c mod 64" using lo r by simp
  show "AppendRune p ((a mod 16) * 4096 + (b mod 64) * 64 + c mod 64)
           = p @ [char_of a, char_of b, char_of c]"
    unfolding r AppendRune_def using lo rng x y z by (auto simp add: d1 d2 d3 d4 a b c)
qed

lemma AppendRune_four:
  fixes a b c d :: nat
  assumes "240 \<le> a" "a \<le> 244" "128 \<le> b" "b \<le> 191" "128 \<le> c" "c \<le> 191"
    and "128 \<le> d" "d \<le> 191"
    and "a = 240 \<longrightarrow> 144 \<le> b" and "a = 244 \<longrightarrow> b \<le> 143"
  shows "AppendRune p ((a mod 8) * 262144 + (b mod 64) * 4096 + (c mod 64) * 64 + d mod 64)
           = p @ [char_of a, char_of b, char_of c, char_of d]"
    and "127 < (a mod 8) * 262144 + (b mod 64) * 4096 + (c mod 64) * 64 + d mod 64"
proof -
  define x where "x = a - 240"
  define y where "y = b - 128"
  define z where "z = c - 128"
  define u where "u = d - 128"
  have a: "a = 240 + x" and x: "x \<le> 4" using assms by (simp_all add: x_def)
  have b: "b = 128 + y" and y: "y < 64" using assms by (simp_all add: y_def)
  have c: "c = 128 + z" and z: "z < 64" using assms by (simp_all add: z_def)
  have d: "d = 128 + u" and u: "u < 64" using assms by (simp_all add: u_def)
  have x0: "x = 0 \<longrightarrow> 16 \<le> y" using assms(9) a b by simp
  have x4: "x = 4 \<longrightarrow> y \<le> 15" using assms(10) a b by simp
  have ma: "a mod 8 = x" using mod_window [of 240 a 8] assms by (simp add: x_def)
  have mb: "b mod 64 = y" using mod_window [of 128 b 64] assms by (simp add: y_def)
  have mc: "c mod 64 = z" using mod_window [of 128 c 64] assms by (simp add: z_def)
  have md: "d mod 64 = u" using mod_window [of 128 d 64] assms by (simp add: u_def)
  define r where "r = x * 262144 + y * 4096 + z * 64 + u"
  have r: "(a mod 8) * 262144 + (b mod 64) * 4096 + (c mod 64) * 64 + d mod 64 = r"
    by (simp add: ma mb mc md r_def)
  have lo: "65535 < r"
  proof (cases "x = 0")
    case True with x0 show ?thesis by (simp add: r_def)
  next
    case False then show ?thesis by (simp add: r_def)
  qed
  have hi: "r \<le> 1114111"
  proof (cases "x = 4")
    case True with x4 z u show ?thesis by (simp add: r_def)
  next
    case False with x have "x \<le> 3" by simp
    then show ?thesis using y z u by (simp add: r_def)
  qed
  have r1: "r = x * 262144 + (y * 4096 + z * 64 + u)" by (simp add: r_def)
  have r2: "r = (x * 64 + y) * 4096 + (z * 64 + u)" by (simp add: r_def)
  have r3: "r = ((x * 64 + y) * 64 + z) * 64 + u" by (simp add: r_def)
  have yzu: "y * 4096 + z * 64 + u < 262144" using y z u by simp
  have zu: "z * 64 + u < 4096" using z u by simp
  have d1: "r div 262144 = x" by (subst r1) (rule divmod_step(1) [OF yzu])
  have d2: "r div 4096 = x * 64 + y" by (subst r2) (rule divmod_step(1) [OF zu])
  have d3: "r div 64 = (x * 64 + y) * 64 + z" by (subst r3) (rule divmod_step(1) [OF u])
  have d4: "r mod 64 = u" by (subst r3) (rule divmod_step(2) [OF u])
  have d5: "(x * 64 + y) mod 64 = y" by (rule divmod_step(2) [OF y])
  have d6: "((x * 64 + y) * 64 + z) mod 64 = z" by (rule divmod_step(2) [OF z])
  have d7: "(r div 4096) mod 64 = y" by (simp only: d2 d5)
  have d8: "(r div 64) mod 64 = z" by (simp only: d3 d6)
  show "127 < (a mod 8) * 262144 + (b mod 64) * 4096 + (c mod 64) * 64 + d mod 64"
    using lo r by simp
  show "AppendRune p ((a mod 8) * 262144 + (b mod 64) * 4096 + (c mod 64) * 64 + d mod 64)
           = p @ [char_of a, char_of b, char_of c, char_of d]"
    unfolding r AppendRune_def using lo hi x y z u by (simp add: d1 d4 d7 d8 a b c d)
qed


lemma Decode_valid_aux:
  assumes "s \<noteq> []" and "DecodeRuneInString s = (r, w)" and "(r, w) \<noteq> (RuneError, 1)"
  shows "1 \<le> w \<and> w \<le> length s \<and> AppendRune p r = p @ take w s \<and>
         DecodeRuneInString (take w s @ u) = (r, w) \<and> (r < 128 \<longrightarrow> w = 1 \<and> r = of_char (hd s))"
  using assms(1)
proof (cases rule: Decode_cases)
  case (ascii c t)
  with assms(2) have rw: "r = of_char c" "w = 1" by auto
  show ?thesis using ascii(2) by (simp add: rw ascii(1) ascii(3) AppendRune_def)
next
  case bad
  with assms show ?thesis by simp
next
  case (two c0 c1 t)
  with assms(2) have rw: "r = (of_char c0 mod 32) * 64 + of_char c1 mod 64" "w = 2" by auto
  show ?thesis
    using AppendRune_two [OF two(2-5)] two(6) [of u]
    by (simp add: rw two(1))
next
  case (three c0 c1 c2 t)
  with assms(2) have rw:
    "r = (of_char c0 mod 16) * 4096 + (of_char c1 mod 64) * 64 + of_char c2 mod 64" "w = 3"
    by auto
  show ?thesis
    using AppendRune_three [OF three(2-5) three(8,9) three(6,7)] three(10) [of u]
    by (simp add: rw three(1))
next
  case (four c0 c1 c2 c3 t)
  with assms(2) have rw:
    "r = (of_char c0 mod 8) * 262144 + (of_char c1 mod 64) * 4096 + (of_char c2 mod 64) * 64
            + of_char c3 mod 64" "w = 4"
    by auto
  show ?thesis
    using AppendRune_four [OF four(2-5) four(8-11) four(6,7)] four(12) [of u]
    by (simp add: rw four(1))
qed

lemma Decode_valid:
  assumes "s \<noteq> []" and "DecodeRuneInString s = (r, w)" and "(r, w) \<noteq> (RuneError, 1)"
  shows "1 \<le> w" and "w \<le> length s"
    and "AppendRune p r = p @ take w s"
    and "DecodeRuneInString (take w s @ u) = (r, w)"
    and "r < 128 \<Longrightarrow> w = 1 \<and> r = of_char (hd s)"
  using Decode_valid_aux [OF assms] by blast+


section \<open>sanitizeFilename\<close>

text \<open>
  \<^verbatim>\<open>sanitizeFilename\<close> ranges over the runes of its argument, writes an underscore for each of
  the nine reserved characters and the rune itself otherwise
  (\<^verbatim>\<open>strings.Builder.WriteRune\<close> is \<^verbatim>\<open>utf8.AppendRune\<close>), and cuts the result
  to its first 80 bytes (\<^verbatim>\<open>len\<close> and slicing of a Go string count bytes).
  \<^verbatim>\<open>sanitize_loop b s\<close> is the loop, started with the builder content \<open>b\<close> on the
  remaining input \<open>s\<close>.
\<close>

lemma drop_width_less:
  "(r, w) = DecodeRuneInString s \<Longrightarrow> s \<noteq> [] \<Longrightarrow> length s - w < length s"
  using width_pos [of s] by (cases s) (auto simp: snd_def split: prod.splits)

definition reserved_runes :: "nat list" where
  "reserved_runes = map of_char
     [CHR ''/'', CHR 0x5C, CHR '':'', CHR ''*'', CHR ''?'', CHR 0x22, CHR ''<'', CHR ''>'', CHR ''|'']"

function sanitize_loop :: "string \<Rightarrow> string \<Rightarrow> string" where
  "sanitize_loop b s =
     (if s = [] then b
      else (case DecodeRuneInString s of (r, w) \<Rightarrow>
        sanitize_loop
          (if r \<in> set reserved_runes then AppendRune b (of_char CHR ''_'') else AppendRune b r)
          (drop w s)))"
  by pat_completeness auto
termination
  by (relation "measure (\<lambda>(b, s). length s)") (auto dest: drop_width_less)

declare sanitize_loop.simps [simp del]

definition sanitizeFilename :: "string \<Rightarrow> string" where
  "sanitizeFilename s =
     (let result = sanitize_loop [] s
      in if length result > 80 then take 80 result else result)"


lemma sanitize_loop_Nil [simp]: "sanitize_loop b [] = b"
  by (simp add: sanitize_loop.simps)

definition replace_rune :: "nat \<Rightarrow> nat" where
  "replace_rune r = (if r \<in> set reserved_runes then of_char CHR ''_'' else r)"

lemma sanitize_loop_step:
  "s \<noteq> [] \<Longrightarrow> DecodeRuneInString s = (r, w) \<Longrightarrow>
   sanitize_loop b s = sanitize_loop (AppendRune b (replace_rune r)) (drop w s)"
  by (subst sanitize_loop.simps) (simp add: replace_rune_def)

lemma AppendRune_append: "AppendRune b r = b @ AppendRune [] r"
  by (simp add: AppendRune_def)

lemma drop_width_shorter:
  "s \<noteq> [] \<Longrightarrow> DecodeRuneInString s = (r, w) \<Longrightarrow> length (drop w s) < length s"
  using drop_width_less [of r w s] by simp

lemma sanitize_loop_append: "sanitize_loop b s = b @ sanitize_loop [] s"
proof (induction "length s" arbitrary: b s rule: less_induct)
  case less
  show ?case
  proof (cases "s = []")
    case True then show ?thesis by simp
  next
    case False
    obtain r w where d: "DecodeRuneInString s = (r, w)" by (cases "DecodeRuneInString s")
    note IH = less [OF drop_width_shorter [OF False d]]
    have "sanitize_loop b s = AppendRune b (replace_rune r) @ sanitize_loop [] (drop w s)"
      by (simp only: sanitize_loop_step [OF False d, of b] IH [of "AppendRune b (replace_rune r)"])
    moreover have "sanitize_loop [] s = AppendRune [] (replace_rune r) @ sanitize_loop [] (drop w s)"
      by (simp only: sanitize_loop_step [OF False d, of "[]"] IH [of "AppendRune [] (replace_rune r)"])
    ultimately show ?thesis using AppendRune_append [of b "replace_rune r"] by simp
  qed
qed

lemma sanitize_loop_unfold:
  assumes "s \<noteq> []" and "DecodeRuneInString s = (r, w)"
  shows "sanitize_loop [] s = AppendRune [] (replace_rune r) @ sanitize_loop [] (drop w s)"
proof -
  have "sanitize_loop [] s = sanitize_loop (AppendRune [] (replace_rune r)) (drop w s)"
    by (rule sanitize_loop_step [OF assms])
  also have "\<dots> = AppendRune [] (replace_rune r) @ sanitize_loop [] (drop w s)"
    by (rule sanitize_loop_append)
  finally show ?thesis .
qed

lemma reserved_lt: "r \<in> set reserved_runes \<Longrightarrow> r < 128"
  by (auto simp: reserved_runes_def)

lemma AppendRune_bytes:
  assumes "c \<in> set (AppendRune [] r)"
  shows "(r \<le> 127 \<and> of_char c = r) \<or> 128 \<le> (of_char c :: nat)"
proof -
  have m: "\<And>q::nat. q mod 64 < 64" by simp
  have k: "\<And>q::nat. (128 + q mod 64) mod 256 = 128 + q mod 64"
    using m by (intro mod_less) (simp add: less_imp_le_nat trans_less_add2)
  consider "r \<le> 127" | "127 < r" "r \<le> 2047"
    | "2047 < r" "r < 55296 \<or> (57343 < r \<and> r \<le> 65535)"
    | "65535 < r" "r \<le> 1114111"
    | "\<not> r \<le> 127" "\<not> r \<le> 2047" "\<not> (r < 55296 \<or> (57343 < r \<and> r \<le> 65535))"
      "\<not> (65535 < r \<and> r \<le> 1114111)"
    by linarith
  then show ?thesis
  proof cases
    case 1
    with assms show ?thesis by (simp add: AppendRune_def)
  next
    case 2
    then have "r div 64 < 32" by (intro less_mult_imp_div_less) simp
    then have "(192 + r div 64) mod 256 = 192 + r div 64" by simp
    with assms 2 k show ?thesis by (auto simp: AppendRune_def)
  next
    case 3
    then have "r div 4096 < 16" by (intro less_mult_imp_div_less) auto
    then have "(224 + r div 4096) mod 256 = 224 + r div 4096" by simp
    with assms 3 k show ?thesis by (auto simp: AppendRune_def)
  next
    case 4
    then have "r div 262144 < 5" by (intro less_mult_imp_div_less) simp
    then have "(240 + r div 262144) mod 256 = 240 + r div 262144" by simp
    with assms 4 k show ?thesis by (auto simp: AppendRune_def)
  next
    case 5
    with assms show ?thesis by (auto simp: AppendRune_def)
  qed
qed


function ValidString :: "string \<Rightarrow> bool" where
  "ValidString s =
     (if s = [] then True
      else (case DecodeRuneInString s of (r, w) \<Rightarrow>
        (r, w) \<noteq> (RuneError, 1) \<and> ValidString (drop w s)))"
  by pat_completeness auto
termination
  by (relation "measure length") (auto dest: drop_width_less)

declare ValidString.simps [simp del]

function RuneCountInString :: "string \<Rightarrow> nat" where
  "RuneCountInString s =
     (if s = [] then 0
      else (case DecodeRuneInString s of (r, w) \<Rightarrow> 1 + RuneCountInString (drop w s)))"
  by pat_completeness auto
termination
  by (relation "measure length") (auto dest: drop_width_less)

declare RuneCountInString.simps [simp del]

lemma RuneCount_le_length: "RuneCountInString s \<le> length s"
proof (induction "length s" arbitrary: s rule: less_induct)
  case less
  show ?case
  proof (cases "s = []")
    case True then show ?thesis by (simp add: RuneCountInString.simps)
  next
    case False
    obtain r w where d: "DecodeRuneInString s = (r, w)" by (cases "DecodeRuneInString s")
    have w: "1 \<le> w" "w \<le> length s" using width_pos [OF False] width_le [of s] d by simp_all
    have "RuneCountInString s = 1 + RuneCountInString (drop w s)"
      using False d by (subst RuneCountInString.simps) simp
    also have "\<dots> \<le> 1 + length (drop w s)"
      using less [OF drop_width_shorter [OF False d]] by simp
    also have "\<dots> \<le> length s" using w by simp
    finally show ?thesis .
  qed
qed

lemma replace_rune_not_reserved: "replace_rune r \<notin> set reserved_runes"
  by (simp add: replace_rune_def reserved_runes_def)

lemma chunk_no_reserved:
  assumes "c \<in> set (AppendRune [] (replace_rune r))"
  shows "(of_char c :: nat) \<notin> set reserved_runes"
  using AppendRune_bytes [OF assms] replace_rune_not_reserved [of r] reserved_lt [of "of_char c"]
  by auto

lemma sanitize_loop_no_reserved:
  "c \<in> set (sanitize_loop [] s) \<Longrightarrow> (of_char c :: nat) \<notin> set reserved_runes"
proof (induction "length s" arbitrary: s rule: less_induct)
  case less
  show ?case
  proof (cases "s = []")
    case True with less.prems show ?thesis by simp
  next
    case False
    obtain r w where d: "DecodeRuneInString s = (r, w)" by (cases "DecodeRuneInString s")
    from less.prems sanitize_loop_unfold [OF False d]
    have "c \<in> set (AppendRune [] (replace_rune r)) \<or> c \<in> set (sanitize_loop [] (drop w s))"
      by simp
    then show ?thesis
      using chunk_no_reserved less.hyps [OF drop_width_shorter [OF False d]] by blast
  qed
qed

lemma ValidString_Nil [simp]: "ValidString []"
  by (simp add: ValidString.simps)

lemma ValidString_step:
  "s \<noteq> [] \<Longrightarrow> DecodeRuneInString s = (r, w) \<Longrightarrow>
   ValidString s \<longleftrightarrow> (r, w) \<noteq> (RuneError, 1) \<and> ValidString (drop w s)"
  by (subst ValidString.simps) simp

lemma sanitize_loop_valid_id:
  assumes "ValidString s" and "\<forall>c\<in>set s. (of_char c :: nat) \<notin> set reserved_runes"
  shows "sanitize_loop [] s = s"
  using assms
proof (induction "length s" arbitrary: s rule: less_induct)
  case less
  show ?case
  proof (cases "s = []")
    case True then show ?thesis by simp
  next
    case False
    obtain r w where d: "DecodeRuneInString s = (r, w)" by (cases "DecodeRuneInString s")
    from less.prems(1) ValidString_step [OF False d]
    have ok: "(r, w) \<noteq> (RuneError, 1)" and rest: "ValidString (drop w s)" by simp_all
    note V = Decode_valid [OF False d ok]
    have "r \<notin> set reserved_runes"
    proof
      assume r: "r \<in> set reserved_runes"
      then have "r = of_char (hd s)" using V(5) reserved_lt by blast
      moreover have "hd s \<in> set s" using False by simp
      ultimately show False using less.prems(2) r by blast
    qed
    then have "AppendRune [] (replace_rune r) = take w s"
      using V(3) [of "[]"] by (simp add: replace_rune_def)
    moreover have "sanitize_loop [] (drop w s) = drop w s"
      using less.hyps [OF drop_width_shorter [OF False d] rest] less.prems(2)
      by (meson in_set_dropD)
    ultimately show ?thesis using sanitize_loop_unfold [OF False d] by simp
  qed
qed

lemma Decode_replacement:
  "DecodeRuneInString (CHR 0xEF # CHR 0xBF # CHR 0xBD # u) = (RuneError, 3)"
  by (simp add: DecodeRuneInString_def acceptRange.simps RuneError_def)

lemma char_of_underscore: "char_of (95::nat) = CHR ''_''"
proof -
  have "(of_char CHR ''_'' :: nat) = 95" by simp
  then show ?thesis by (metis char_of_char)
qed

lemma chunk_valid:
  assumes "s \<noteq> []" and "DecodeRuneInString s = (r, w)" and "ValidString u"
  shows "ValidString (AppendRune [] (replace_rune r) @ u)"
proof (cases "r \<in> set reserved_runes")
  case True
  then show ?thesis
    using assms(3) ValidString_step [of "CHR ''_'' # u", OF _ Decode_ascii]
    by (simp add: replace_rune_def AppendRune_def RuneError_def char_of_underscore)
next
  case nr: False
  show ?thesis
  proof (cases "(r, w) = (RuneError, 1)")
    case True
    then have "AppendRune [] (replace_rune r) = [CHR 0xEF, CHR 0xBF, CHR 0xBD]"
      using nr by (simp add: replace_rune_def AppendRune_def RuneError_def char_of_eq_iff)
    then show ?thesis
      using assms(3) ValidString_step [OF _ Decode_replacement [of u]]
      by (simp add: RuneError_def)
  next
    case False
    note V = Decode_valid [OF assms(1,2) False]
    have c: "AppendRune [] (replace_rune r) = take w s"
      using V(3) [of "[]"] nr by (simp add: replace_rune_def)
    have ne: "take w s @ u \<noteq> []" using V(1) assms(1) by (cases s) auto
    show ?thesis
      using ValidString_step [OF ne V(4) [of u]] False assms(3) V(2) by (simp add: c)
  qed
qed

lemma sanitize_loop_valid: "ValidString (sanitize_loop [] s)"
proof (induction "length s" arbitrary: s rule: less_induct)
  case less
  show ?case
  proof (cases "s = []")
    case True then show ?thesis by simp
  next
    case False
    obtain r w where d: "DecodeRuneInString s = (r, w)" by (cases "DecodeRuneInString s")
    show ?thesis
      using chunk_valid [OF False d less [OF drop_width_shorter [OF False d]]]
      by (simp add: sanitize_loop_unfold [OF False d])
  qed
qed

lemma sanitize_loop_valid_length:
  assumes "ValidString s"
  shows "length (sanitize_loop [] s) = length s"
  using assms
proof (induction "length s" arbitrary: s rule: less_induct)
  case less
  show ?case
  proof (cases "s = []")
    case True then show ?thesis by simp
  next
    case False
    obtain r w where d: "DecodeRuneInString s = (r, w)" by (cases "DecodeRuneInString s")
    from less.prems ValidString_step [OF False d]
    have ok: "(r, w) \<noteq> (RuneError, 1)" and rest: "ValidString (drop w s)" by simp_all
    note V = Decode_valid [OF False d ok]
    have "length (AppendRune [] (replace_rune r)) = w"
    proof (cases "r \<in> set reserved_runes")
      case True
      then show ?thesis using V(5) reserved_lt [OF True]
        by (simp add: replace_rune_def AppendRune_def)
    next
      case False
      then show ?thesis using V(3) [of "[]"] V(2) by (simp add: replace_rune_def)
    qed
    then show ?thesis
      using less.hyps [OF drop_width_shorter [OF False d] rest] V(2)
      by (simp add: sanitize_loop_unfold [OF False d])
  qed
qed

section \<open>Package strings: TrimSpace, SplitN, Contains\<close>

text \<open>
  The functions of the Go standard library that the handlers call, after their sources
  in package \<^verbatim>\<open>strings\<close>, \<^verbatim>\<open>unicode\<close> and \<^verbatim>\<open>unicode/utf8\<close>.

  \<^verbatim>\<open>strings.TrimSpace\<close> first scans ASCII bytes from the left and from the right; as soon
  as it meets a byte \<open>\<ge> 0x80\<close> it hands the rest to \<^verbatim>\<open>TrimFunc\<close> or
  \<^verbatim>\<open>TrimRightFunc\<close> with \<^verbatim>\<open>unicode.IsSpace\<close>, which work rune by rune
  (\<^verbatim>\<open>indexFunc\<close> forwards, \<^verbatim>\<open>lastIndexFunc\<close> backwards with
  \<^verbatim>\<open>DecodeLastRuneInString\<close>). An index result of \<open>-1\<close> is \<open>None\<close>.
\<close>

definition asciiSpace :: "char \<Rightarrow> bool" where
  "asciiSpace c \<longleftrightarrow> (of_char c :: nat) \<in> {9, 10, 11, 12, 13, 32}"

definition IsSpace :: "nat \<Rightarrow> bool" where
  "IsSpace r =
     (if r \<le> 0xFF then r \<in> {9, 10, 11, 12, 13, 32, 0x85, 0xA0}
      else r = 0x1680 \<or> (0x2000 \<le> r \<and> r \<le> 0x200A) \<or> r = 0x2028 \<or> r = 0x2029
           \<or> r = 0x202F \<or> r = 0x205F \<or> r = 0x3000)"

definition RuneStart :: "char \<Rightarrow> bool" where
  "RuneStart b \<longleftrightarrow> \<not> (0x80 \<le> (of_char b :: nat) \<and> (of_char b :: nat) \<le> 0xBF)"

function scan_back :: "string \<Rightarrow> int \<Rightarrow> int \<Rightarrow> int" where
  "scan_back s start lim =
     (if start < lim then start
      else if RuneStart (s ! nat start) then start
      else scan_back s (start - 1) lim)"
  by pat_completeness auto
termination
  by (relation "measure (\<lambda>(s, start, lim). nat (start - lim + 1))") auto

declare scan_back.simps [simp del]

definition DecodeLastRuneInString :: "string \<Rightarrow> nat \<times> nat" where
  "DecodeLastRuneInString s =
     (if s = [] then (RuneError, 0)
      else let n = int (length s); start = n - 1; r = of_char (s ! nat start) in
        if r < 0x80 then (r, 1)
        else let lim = max (n - 4) 0;
                 start = scan_back s (start - 1) lim;
                 start = (if start < 0 then 0 else start);
                 d = DecodeRuneInString (drop (nat start) s)
             in if start + int (snd d) \<noteq> n then (RuneError, 1) else d)"

function indexFunc_from :: "nat \<Rightarrow> string \<Rightarrow> (nat \<Rightarrow> bool) \<Rightarrow> bool \<Rightarrow> nat option" where
  "indexFunc_from i s f truth =
     (if s = [] then None
      else (case DecodeRuneInString s of (r, w) \<Rightarrow>
        if f r = truth then Some i else indexFunc_from (i + w) (drop w s) f truth))"
  by pat_completeness auto
termination
  by (relation "measure (\<lambda>(i, s, f, truth). length s)") (auto dest: drop_width_less)

declare indexFunc_from.simps [simp del]

definition indexFunc :: "string \<Rightarrow> (nat \<Rightarrow> bool) \<Rightarrow> bool \<Rightarrow> nat option" where
  "indexFunc s f truth = indexFunc_from 0 s f truth"

lemma scan_back_le: "scan_back s start lim \<le> start"
proof (induction s start lim rule: scan_back.induct)
  case (1 s start lim)
  then show ?case by (subst scan_back.simps) auto
qed

lemma DecodeLast_width_pos:
  assumes "s \<noteq> []"
  shows "1 \<le> snd (DecodeLastRuneInString s)"
proof -
  define k where "k = scan_back s (int (length s) - 1 - 1) (max (int (length s) - 4) 0)"
  define st where "st = (if k < 0 then 0 else k)"
  have "k \<le> int (length s) - 2" using scan_back_le [of s "int (length s) - 1 - 1"] by (simp add: k_def)
  then have "nat st < length s" using assms by (auto simp: st_def)
  then have "drop (nat st) s \<noteq> []" by simp
  then have "1 \<le> snd (DecodeRuneInString (drop (nat st) s))" by (rule width_pos)
  then show ?thesis
    using assms by (auto simp: DecodeLastRuneInString_def Let_def k_def st_def)
qed

lemma DecodeLast_width_less:
  "(r, sz) = DecodeLastRuneInString s \<Longrightarrow> s \<noteq> [] \<Longrightarrow> length s - sz < length s"
  using DecodeLast_width_pos [of s] by (cases s) (auto simp: snd_def split: prod.splits)

text \<open>
  The loop of \<^verbatim>\<open>lastIndexFunc\<close> keeps an index \<open>i\<close> and decodes the last rune of
  \<^verbatim>\<open>s[0:i]\<close>; here the loop state is that prefix.
\<close>

function lastIndexFunc :: "string \<Rightarrow> (nat \<Rightarrow> bool) \<Rightarrow> bool \<Rightarrow> nat option" where
  "lastIndexFunc s f truth =
     (if s = [] then None
      else (case DecodeLastRuneInString s of (r, sz) \<Rightarrow>
        if f r = truth then Some (length s - sz)
        else lastIndexFunc (take (length s - sz) s) f truth))"
  by pat_completeness auto
termination
  by (relation "measure (\<lambda>(s, f, truth). length s)") (auto dest: DecodeLast_width_less)

declare lastIndexFunc.simps [simp del]

definition TrimLeftFunc :: "string \<Rightarrow> (nat \<Rightarrow> bool) \<Rightarrow> string" where
  "TrimLeftFunc s f = (case indexFunc s f False of None \<Rightarrow> [] | Some i \<Rightarrow> drop i s)"

definition TrimRightFunc :: "string \<Rightarrow> (nat \<Rightarrow> bool) \<Rightarrow> string" where
  "TrimRightFunc s f =
     (case lastIndexFunc s f False of
        None \<Rightarrow> []
      | Some i \<Rightarrow>
          if (0x80::nat) \<le> of_char (s ! i)
          then take (i + snd (DecodeRuneInString (drop i s))) s
          else take (i + 1) s)"

definition TrimFunc :: "string \<Rightarrow> (nat \<Rightarrow> bool) \<Rightarrow> string" where
  "TrimFunc s f = TrimRightFunc (TrimLeftFunc s f) f"

text \<open>
  The first loop of \<^verbatim>\<open>TrimSpace\<close>: the flag says that a non-ASCII byte was met (the
  function then returns \<^verbatim>\<open>TrimFunc(s[start:], unicode.IsSpace)\<close>); the string is
  \<^verbatim>\<open>s[start:]\<close>. The second loop works on \<^verbatim>\<open>s[start:stop]\<close>.
\<close>

fun TrimSpace_start :: "string \<Rightarrow> bool \<times> string" where
  "TrimSpace_start [] = (False, [])"
| "TrimSpace_start (c # t) =
     (if (0x80::nat) \<le> of_char c then (True, c # t)
      else if asciiSpace c then TrimSpace_start t
      else (False, c # t))"

function TrimSpace_stop :: "string \<Rightarrow> string" where
  "TrimSpace_stop u =
     (if u = [] then []
      else if (0x80::nat) \<le> of_char (last u) then TrimRightFunc u IsSpace
      else if asciiSpace (last u) then TrimSpace_stop (butlast u)
      else u)"
  by pat_completeness auto
termination
  by (relation "measure length") auto

declare TrimSpace_stop.simps [simp del]

definition TrimSpace :: "string \<Rightarrow> string" where
  "TrimSpace s =
     (case TrimSpace_start s of
        (True, u) \<Rightarrow> TrimFunc u IsSpace
      | (False, u) \<Rightarrow> TrimSpace_stop u)"

text \<open>
  \<^verbatim>\<open>strings.Index\<close> (the first position where \<open>substr\<close> occurs), \<^verbatim>\<open>strings.Contains\<close>
  and \<^verbatim>\<open>strings.SplitN\<close> for a count \<open>n \<ge> 0\<close>: \<^verbatim>\<open>genSplit\<close> cuts at most \<open>n - 1\<close>
  times and keeps the unsplit remainder as the last element; with an empty separator it
  splits after each UTF-8 sequence (\<^verbatim>\<open>explode\<close>).
\<close>

definition HasPrefix :: "string \<Rightarrow> string \<Rightarrow> bool" where
  "HasPrefix s p \<longleftrightarrow> length p \<le> length s \<and> take (length p) s = p"

fun Index :: "string \<Rightarrow> string \<Rightarrow> nat option" where
  "Index [] substr = (if substr = [] then Some 0 else None)"
| "Index (c # t) substr =
     (if HasPrefix (c # t) substr then Some 0 else map_option Suc (Index t substr))"

definition Contains :: "string \<Rightarrow> string \<Rightarrow> bool" where
  "Contains s substr \<longleftrightarrow> Index s substr \<noteq> None"

fun explode_loop :: "string \<Rightarrow> nat \<Rightarrow> string list" where
  "explode_loop s 0 = [s]"
| "explode_loop s (Suc k) =
     take (snd (DecodeRuneInString s)) s # explode_loop (drop (snd (DecodeRuneInString s)) s) k"

definition explode :: "string \<Rightarrow> nat \<Rightarrow> string list" where
  "explode s n =
     (let n = min n (RuneCountInString s) in if n = 0 then [] else explode_loop s (n - 1))"

fun genSplit_loop :: "string \<Rightarrow> string \<Rightarrow> nat \<Rightarrow> string list" where
  "genSplit_loop s sep 0 = [s]"
| "genSplit_loop s sep (Suc k) =
     (case Index s sep of
        None \<Rightarrow> [s]
      | Some m \<Rightarrow> take m s # genSplit_loop (drop (m + length sep) s) sep k)"

definition SplitN :: "string \<Rightarrow> string \<Rightarrow> nat \<Rightarrow> string list" where
  "SplitN s sep n =
     (if n = 0 then []
      else if sep = [] then explode s n
      else genSplit_loop s sep (min n (length s + 1) - 1))"

lemma TrimSpace_stop_Nil: "TrimSpace_stop [] = []"
  by (simp add: TrimSpace_stop.simps)

lemma TrimSpace_stop_Cons:
  "TrimSpace_stop (c # t) =
     (if (0x80::nat) \<le> of_char (last (c # t)) then TrimRightFunc (c # t) IsSpace
      else if asciiSpace (last (c # t)) then TrimSpace_stop (butlast (c # t))
      else c # t)"
  by (subst TrimSpace_stop.simps) simp

lemmas strings_eval = TrimSpace_def TrimSpace_stop_Nil TrimSpace_stop_Cons asciiSpace_def
  SplitN_def HasPrefix_def Contains_def

section \<open>The process and its surroundings\<close>

text \<open>
  The program keeps two global variables, \<^verbatim>\<open>ytdlpPath\<close> and \<^verbatim>\<open>ytdlpVersion\<close>, and
  acts on files. A \<open>state\<close> holds both variables, the regular files on disk (a map from
  paths to contents) and a trace of the effects performed so far, in order.

  What the outside world answers is a parameter. A \<open>platform\<close> is fixed for the life of
  the process: \<^verbatim>\<open>runtime.GOOS\<close>, the result of \<^verbatim>\<open>os.UserConfigDir()\<close> (\<open>Inl\<close> an
  error), \<^verbatim>\<open>os.TempDir()\<close>, \<^verbatim>\<open>filepath.Join\<close> and the files embedded at build time.
  An \<open>env\<close> gives the answers during one step: the output of a subprocess
  (\<^verbatim>\<open>exec.Command(bin, args...).Output()\<close>), the responses to \<^verbatim>\<open>http.Get\<close> and to the
  proxy client's \<^verbatim>\<open>Do\<close>, what \<^verbatim>\<open>json.Decoder.Decode\<close> makes of a response,
  and the failures of file operations. Errors are their messages.
\<close>

record asset =
  Name :: string
  BrowserDownloadURL :: string

record release =
  TagName :: string
  Assets :: "asset list"

record http_response =
  Header :: "string \<rightharpoonup> string"
  Body :: string
  BodyErr :: "string option"

record platform =
  GOOS :: string
  UserConfigDir :: "string + string"
  TempDir :: string
  Join :: "string \<Rightarrow> string \<Rightarrow> string"
  embeddedBinaries :: "string \<rightharpoonup> string"

record env =
  Exec :: "string \<Rightarrow> string list \<Rightarrow> string + string"
  Get :: "string \<Rightarrow> string + http_response"
  Do :: "string \<Rightarrow> string + http_response"
  NewRequestErr :: "string \<Rightarrow> string option"
  jsonDecode :: "http_response \<Rightarrow> string + release"
  StatErr :: "string \<Rightarrow> string option"
  OpenErr :: "string \<Rightarrow> string option"
  WriteErr :: "string \<Rightarrow> (nat \<times> string) option"
  RenameErr :: "string \<Rightarrow> string \<Rightarrow> string option"

datatype event =
    MkdirAll string
  | Stat string
  | ReadEmbedded string
  | WriteFile string
  | HttpGet string
  | OpenFile string
  | Copy string
  | Rename string string
  | Log string

record state =
  ytdlpPath :: string
  ytdlpVersion :: string
  files :: "string \<rightharpoonup> string"
  trace :: "event list"

datatype 'a outcome = Fatal string | Return 'a

definition YTDLP_REPO :: string where
  "YTDLP_REPO = ''yt-dlp/yt-dlp''"

definition CONFIG_DIR :: string where
  "CONFIG_DIR = ''tatatext-helper''"

definition emit :: "event \<Rightarrow> state \<Rightarrow> state" where
  "emit e s = s\<lparr>trace := trace s @ [e]\<rparr>"

text \<open>
  Writing \<open>data\<close> to an open file: all of it, or only the first \<open>n\<close> bytes when the
  write fails there. \<^verbatim>\<open>os.WriteFile\<close> opens with \<^verbatim>\<open>O_WRONLY|O_CREATE|O_TRUNC\<close> and
  writes; \<^verbatim>\<open>io.Copy\<close> writes what the response body delivers and returns the write
  error or else the error the body ended with.
\<close>

definition write_bytes :: "env \<Rightarrow> string \<Rightarrow> string \<Rightarrow> string \<times> string option" where
  "write_bytes en p data =
     (case WriteErr en p of
        Some (n, e) \<Rightarrow> if n < length data then (take n data, Some e) else (data, None)
      | None \<Rightarrow> (data, None))"

definition os_WriteFile :: "env \<Rightarrow> string \<Rightarrow> string \<Rightarrow> state \<Rightarrow> string option \<times> state" where
  "os_WriteFile en p data s =
     (let s1 = emit (WriteFile p) s in
      case OpenErr en p of
        Some e \<Rightarrow> (Some e, s1)
      | None \<Rightarrow>
          (snd (write_bytes en p data),
           s1\<lparr>files := (files s1)(p \<mapsto> fst (write_bytes en p data))\<rparr>))"

definition io_Copy :: "env \<Rightarrow> string \<Rightarrow> http_response \<Rightarrow> string \<times> string option" where
  "io_Copy en p resp =
     (case write_bytes en p (Body resp) of
        (w, Some e) \<Rightarrow> (w, Some e)
      | (w, None) \<Rightarrow> (w, BodyErr resp))"

text \<open>
  \<^verbatim>\<open>os.IsNotExist(err)\<close> for the error of \<^verbatim>\<open>os.Stat(p)\<close>: the call did not fail for
  another reason (such as a permission error) and there is no file at \<open>p\<close>.
\<close>

definition stat_IsNotExist :: "env \<Rightarrow> state \<Rightarrow> string \<Rightarrow> bool" where
  "stat_IsNotExist en s p \<longleftrightarrow> StatErr en p = None \<and> files s p = None"

subsection \<open>extractYtDlp, getYtDlpVersion and the start of main\<close>

definition outName :: "platform \<Rightarrow> string" where
  "outName pl = (if GOOS pl = ''windows'' then ''yt-dlp.exe'' else ''yt-dlp'')"

definition binName :: "platform \<Rightarrow> string" where
  "binName pl = (if GOOS pl = ''windows'' then ''yt-dlp-win.exe'' else ''yt-dlp-mac'')"

text \<open>The target path as \<^verbatim>\<open>extractYtDlp\<close> computes it (falling back to the temp dir).\<close>

definition extract_outPath :: "platform \<Rightarrow> string" where
  "extract_outPath pl =
     (let configDir = (case UserConfigDir pl of Inl err \<Rightarrow> TempDir pl | Inr d \<Rightarrow> d);
          dir = Join pl configDir CONFIG_DIR
      in Join pl dir (outName pl))"

definition extractYtDlp :: "platform \<Rightarrow> env \<Rightarrow> state \<Rightarrow> string outcome \<times> state" where
  "extractYtDlp pl en s =
     (let configDir = (case UserConfigDir pl of Inl err \<Rightarrow> TempDir pl | Inr d \<Rightarrow> d);
          dir = Join pl configDir CONFIG_DIR;
          s1 = emit (MkdirAll dir) s;
          outPath = Join pl dir (outName pl);
          s2 = emit (Stat outPath) s1
      in if stat_IsNotExist en s2 outPath then
           (let s3 = emit (ReadEmbedded (binName pl)) s2 in
            case embeddedBinaries pl (binName pl) of
              None \<Rightarrow>
                (Fatal (''failed to read embedded '' @ binName pl @ '': open '' @ binName pl
                   @ '': file does not exist''), s3)
            | Some data \<Rightarrow>
                (case os_WriteFile en outPath data s3 of
                   (Some e, s4) \<Rightarrow> (Fatal (''failed to write yt-dlp:'' @ e), s4)
                 | (None, s4) \<Rightarrow>
                     (Return outPath, emit (Log (''extracted embedded yt-dlp to '' @ outPath)) s4)))
         else (Return outPath, s2))"

definition getYtDlpVersion :: "env \<Rightarrow> string \<Rightarrow> string" where
  "getYtDlpVersion en bin =
     (case Exec en bin [''--version''] of
        Inl err \<Rightarrow> ''unknown''
      | Inr out \<Rightarrow> TrimSpace out)"

text \<open>
  The first statements of \<^verbatim>\<open>main\<close>, run before the updater goroutine and the server
  start. Both globals are empty strings before.
\<close>

definition init_state :: "(string \<rightharpoonup> string) \<Rightarrow> state" where
  "init_state fs = \<lparr>ytdlpPath = [], ytdlpVersion = [], files = fs, trace = []\<rparr>"

definition main_start :: "platform \<Rightarrow> env \<Rightarrow> state \<Rightarrow> unit outcome \<times> state" where
  "main_start pl en s =
     (case extractYtDlp pl en s of
        (Fatal m, s1) \<Rightarrow> (Fatal m, s1)
      | (Return p, s1) \<Rightarrow>
          (let s2 = s1\<lparr>ytdlpPath := p\<rparr>;
               s3 = s2\<lparr>ytdlpVersion := getYtDlpVersion en (ytdlpPath s2)\<rparr>
           in (Return (), emit (Log (''yt-dlp version: '' @ ytdlpVersion s3)) s3)))"

subsection \<open>The updater\<close>

definition feedURL :: string where
  "feedURL = ''https://api.github.com/repos/'' @ YTDLP_REPO @ ''/releases/latest''"

definition assetName :: "platform \<Rightarrow> string" where
  "assetName pl = (if GOOS pl = ''windows'' then ''yt-dlp.exe'' else ''yt-dlp_macos'')"

definition getLatestYtDlpRelease ::
    "platform \<Rightarrow> env \<Rightarrow> state \<Rightarrow> (string + string \<times> string) \<times> state" where
  "getLatestYtDlpRelease pl en s =
     (let s1 = emit (HttpGet feedURL) s in
      case Get en feedURL of
        Inl err \<Rightarrow> (Inl err, s1)
      | Inr resp \<Rightarrow>
          (case jsonDecode en resp of
             Inl err \<Rightarrow> (Inl err, s1)
           | Inr rel \<Rightarrow>
               (case find (\<lambda>a. Name a = assetName pl) (Assets rel) of
                  Some a \<Rightarrow> (Inr (TagName rel, BrowserDownloadURL a), s1)
                | None \<Rightarrow> (Inl (''asset '' @ assetName pl @ '' not found in release''), s1))))"

text \<open>
  The paths of \<^verbatim>\<open>downloadYtDlp\<close>. It drops the error of \<^verbatim>\<open>os.UserConfigDir()\<close>, so
  the directory is the empty string then.
\<close>

definition download_outPath :: "platform \<Rightarrow> string" where
  "download_outPath pl =
     (let configDir = (case UserConfigDir pl of Inl err \<Rightarrow> [] | Inr d \<Rightarrow> d);
          dir = Join pl configDir CONFIG_DIR
      in Join pl dir (outName pl))"

definition download_tmpPath :: "platform \<Rightarrow> string" where
  "download_tmpPath pl = download_outPath pl @ ''.tmp''"

definition downloadYtDlp ::
    "platform \<Rightarrow> env \<Rightarrow> string \<Rightarrow> state \<Rightarrow> (string + string) \<times> state" where
  "downloadYtDlp pl en url s =
     (let outPath = download_outPath pl;
          tmpPath = outPath @ ''.tmp'';
          s1 = emit (HttpGet url) s
      in case Get en url of
        Inl err \<Rightarrow> (Inl err, s1)
      | Inr resp \<Rightarrow>
          (let s2 = emit (OpenFile tmpPath) s1 in
           case OpenErr en tmpPath of
             Some err \<Rightarrow> (Inl err, s2)
           | None \<Rightarrow>
               (let s3 = emit (Copy tmpPath) (s2\<lparr>files := (files s2)(tmpPath \<mapsto> [])\<rparr>);
                    s4 = s3\<lparr>files := (files s3)(tmpPath \<mapsto> fst (io_Copy en tmpPath resp))\<rparr>
                in case snd (io_Copy en tmpPath resp) of
                  Some err \<Rightarrow> (Inl err, s4)
                | None \<Rightarrow>
                    (let s5 = emit (Rename tmpPath outPath) s4 in
                     case RenameErr en tmpPath outPath of
                       Some err \<Rightarrow> (Inl err, s5)
                     | None \<Rightarrow>
                         (Inr outPath,
                          s5\<lparr>files := (files s5)(outPath := files s5 tmpPath, tmpPath := None)\<rparr>)))))"

definition arrow :: string where
  "arrow = [CHR 0x20, CHR 0xE2, CHR 0x86, CHR 0x92, CHR 0x20]"

definition checkAndUpdate :: "platform \<Rightarrow> env \<Rightarrow> state \<Rightarrow> state" where
  "checkAndUpdate pl en s =
     (case getLatestYtDlpRelease pl en (emit (Log ''checking for yt-dlp updates...'') s) of
        (Inl err, s1) \<Rightarrow> emit (Log (''update check failed: '' @ err)) s1
      | (Inr (latestVersion, downloadURL), s1) \<Rightarrow>
          (let current = ytdlpVersion s1 in
           if current = latestVersion
           then emit (Log (''yt-dlp is up to date ('' @ current @ '')'')) s1
           else
             (case downloadYtDlp pl en downloadURL
                     (emit (Log (''updating yt-dlp '' @ current @ arrow @ latestVersion)) s1) of
                (Inl err, s3) \<Rightarrow> emit (Log (''update download failed: '' @ err)) s3
              | (Inr newPath, s3) \<Rightarrow>
                  emit (Log (''yt-dlp updated to '' @ latestVersion))
                    (s3\<lparr>ytdlpPath := newPath, ytdlpVersion := latestVersion\<rparr>))))"

text \<open>
  \<^verbatim>\<open>autoUpdateYtDlp\<close> checks once and then once per tick of a six-hour ticker, for
  ever; \<open>ens\<close> are the surroundings of the checks made so far, the first at start-up.
\<close>

definition autoUpdateYtDlp :: "platform \<Rightarrow> env list \<Rightarrow> state \<Rightarrow> state" where
  "autoUpdateYtDlp pl ens s = foldl (\<lambda>s en. checkAndUpdate pl en s) s ens"

subsection \<open>The request handlers\<close>

record request =
  Method :: string
  query_url :: string

record response =
  status :: nat
  headers :: "string \<rightharpoonup> string"
  body :: string

datatype handled = Responded response | Panicked

definition Header_Get :: "http_response \<Rightarrow> string \<Rightarrow> string" where
  "Header_Get resp k = (case Header resp k of None \<Rightarrow> [] | Some v \<Rightarrow> v)"

text \<open>
  \<^verbatim>\<open>http.Error\<close> replaces the content type, sets \<^verbatim>\<open>X-Content-Type-Options\<close>, and
  writes the status and the message followed by a newline.
\<close>

definition http_Error :: "(string \<rightharpoonup> string) \<Rightarrow> string \<Rightarrow> nat \<Rightarrow> response" where
  "http_Error h msg code =
     \<lparr>status = code,
      headers = h(''Content-Type'' \<mapsto> ''text/plain; charset=utf-8'',
                  ''X-Content-Type-Options'' \<mapsto> ''nosniff''),
      body = msg @ ''\<newline>''\<rparr>"

text \<open>
  \<^verbatim>\<open>/ping\<close> reads \<^verbatim>\<open>ytdlpVersion\<close> under the lock and encodes a map of three entries;
  the payload is kept as that map (in key order).
\<close>

definition ping :: "state \<Rightarrow> (string \<times> string) list" where
  "ping s = [(''status'', ''ok''), (''version'', ''1.0.0''), (''ytdlpVersion'', ytdlpVersion s)]"

definition cors :: "string \<rightharpoonup> string" where
  "cors = [''Access-Control-Allow-Origin'' \<mapsto> ''https://tatatext.com'',
           ''Access-Control-Allow-Methods'' \<mapsto> ''GET, OPTIONS'',
           ''Access-Control-Allow-Headers'' \<mapsto> ''Content-Type'']"

definition json_header :: "(string \<rightharpoonup> string) \<Rightarrow> (string \<rightharpoonup> string)" where
  "json_header h = h(''Content-Type'' \<mapsto> ''application/json'')"

text \<open>
  The second half of the \<^verbatim>\<open>/audio\<close> handler, from \<^verbatim>\<open>http.NewRequest\<close> on: it proxies
  \<open>audioURL\<close>. The error of \<^verbatim>\<open>NewRequest\<close> is dropped and the request is used at once,
  so a URL that \<^verbatim>\<open>NewRequest\<close> rejects makes the handler panic on a nil pointer.
\<close>

definition audio_ext :: "string \<Rightarrow> string" where
  "audio_ext ct = (if Contains ct ''webm'' \<or> Contains ct ''ogg'' then ''webm'' else ''m4a'')"

definition audio_proxy :: "env \<Rightarrow> string \<Rightarrow> string \<Rightarrow> handled" where
  "audio_proxy en title audioURL =
     (case NewRequestErr en audioURL of
        Some err \<Rightarrow> Panicked
      | None \<Rightarrow>
          (case Do en audioURL of
             Inl err \<Rightarrow>
               Responded (http_Error (json_header cors)
                 (''{\"error\":\"download failed: '' @ err @ ''\"}'') 500)
           | Inr resp \<Rightarrow>
               (let safeTitle = sanitizeFilename title;
                    ct0 = Header_Get resp ''Content-Type'';
                    ct = (if ct0 = [] then ''audio/mp4'' else ct0);
                    ext = audio_ext ct;
                    h1 = cors(''Content-Type'' \<mapsto> ct);
                    cl = Header_Get resp ''Content-Length'';
                    h2 = (if cl \<noteq> [] then h1(''Content-Length'' \<mapsto> cl) else h1);
                    h3 = h2(''Content-Disposition'' \<mapsto>
                              ''attachment; filename=\"'' @ safeTitle @ ''.'' @ ext @ ''\"'',
                            ''X-Video-Title'' \<mapsto> title,
                            ''X-Video-Extension'' \<mapsto> ext)
                in Responded \<lparr>status = 200, headers = h3, body = Body resp\<rparr>)))"

text \<open>
  The first half: the lines of the subprocess output, the title, and the checks. The
  binary is the value of \<^verbatim>\<open>ytdlpPath\<close> read under the lock.
\<close>

definition audio_lines :: "string \<Rightarrow> string list" where
  "audio_lines out = SplitN (TrimSpace out) ''\<newline>'' 2"

definition audio_title :: "string list \<Rightarrow> string" where
  "audio_title lines =
     (if length lines \<ge> 1 \<and> lines ! 0 \<noteq> [] then lines ! 0 else ''YouTube Video'')"

definition no_audio_url :: "string list \<Rightarrow> bool" where
  "no_audio_url lines \<longleftrightarrow> length lines < 2 \<or> lines ! 1 = []"

definition audio_args :: "string \<Rightarrow> string list" where
  "audio_args youtubeURL =
     [''--no-playlist'', ''-f'', ''bestaudio[ext=m4a]/bestaudio'',
      ''--print'', ''%(title)s\<newline>%(url)s'', ''--'', youtubeURL]"

definition audio :: "env \<Rightarrow> request \<Rightarrow> state \<Rightarrow> handled" where
  "audio en r s =
     (if Method r = ''OPTIONS'' then Responded \<lparr>status = 204, headers = cors, body = []\<rparr>
      else if query_url r = [] then
        Responded (http_Error (json_header cors) ''{\"error\":\"url parameter required\"}'' 400)
      else
        (let bin = ytdlpPath s in
         case Exec en bin (audio_args (query_url r)) of
           Inl err \<Rightarrow>
             Responded (http_Error (json_header cors)
               (''{\"error\":\"yt-dlp failed: '' @ err @ ''\"}'') 500)
         | Inr out \<Rightarrow>
             (let lines = audio_lines out;
                  title = audio_title lines
              in if no_audio_url lines then
                   Responded (http_Error (json_header cors)
                     ''{\"error\":\"no audio URL found\"}'' 500)
                 else audio_proxy en title (TrimSpace (lines ! 1)))))"

section \<open>Facts about the model\<close>

lemma emit_simps [simp]:
  "ytdlpPath (emit e s) = ytdlpPath s"
  "ytdlpVersion (emit e s) = ytdlpVersion s"
  "files (emit e s) = files s"
  "trace (emit e s) = trace s @ [e]"
  by (simp_all add: emit_def)

lemma Index_HasPrefix: "Index s sub = Some m \<Longrightarrow> HasPrefix (drop m s) sub"
proof (induction s arbitrary: m)
  case Nil
  then show ?case by (auto simp: HasPrefix_def split: if_splits)
next
  case (Cons c t)
  then show ?case by (auto split: if_splits)
qed

lemma Index_le: "Index s sub = Some m \<Longrightarrow> m \<le> length s"
  by (induction s arbitrary: m) (auto split: if_splits)

lemma Index_None: "Index s sub = None \<Longrightarrow> \<not> HasPrefix (drop m s) sub"
proof (induction s arbitrary: m)
  case Nil
  then show ?case by (auto simp: HasPrefix_def split: if_splits)
next
  case (Cons c t)
  then show ?case by (cases m) (auto split: if_splits)
qed

lemma HasPrefix_iff: "HasPrefix s p \<longleftrightarrow> (\<exists>q. s = p @ q)"
  unfolding HasPrefix_def
  by (metis append_eq_conv_conj append_take_drop_id length_append le_add1)

lemma Contains_iff: "Contains s sub \<longleftrightarrow> (\<exists>p q. s = p @ sub @ q)"
proof
  assume "Contains s sub"
  then obtain m where m: "Index s sub = Some m" by (auto simp: Contains_def)
  from Index_HasPrefix [OF m] obtain q where "drop m s = sub @ q" by (auto simp: HasPrefix_iff)
  then have "s = take m s @ sub @ q" by (metis append_take_drop_id)
  then show "\<exists>p q. s = p @ sub @ q" by blast
next
  assume "\<exists>p q. s = p @ sub @ q"
  then obtain p q where s: "s = p @ sub @ q" by blast
  then have "HasPrefix (drop (length p) s) sub" by (simp add: HasPrefix_iff)
  then show "Contains s sub" using Index_None [of s sub "length p"] by (auto simp: Contains_def)
qed

lemma Index_newline_None: "Index s [c] = None \<longleftrightarrow> c \<notin> set s"
  by (induction s) (auto simp: HasPrefix_def)

text \<open>
  What \<^verbatim>\<open>TrimSpace\<close> returns is a slice of its argument, and it never ends in ASCII white
  space: on the fast path because the scan stops there, on the Unicode path because the
  last rune kept is not a space and ends in a byte of its own encoding.
\<close>

lemma asciiSpace_IsSpace: "asciiSpace c \<Longrightarrow> IsSpace (of_char c)"
  by (auto simp: asciiSpace_def IsSpace_def)

lemma asciiSpace_lt: "asciiSpace c \<Longrightarrow> (of_char c :: nat) < 128"
  by (auto simp: asciiSpace_def)

text \<open>A slice of \<open>s\<close> that is empty or ends in a byte that is not ASCII white space.\<close>

definition trimmed_slice :: "string \<Rightarrow> string \<Rightarrow> bool" where
  "trimmed_slice s t \<longleftrightarrow>
     (\<exists>i j. t = take j (drop i s)) \<and> (t = [] \<or> \<not> asciiSpace (last t))"

lemma TrimSpace_start_suffix: "\<exists>i. snd (TrimSpace_start s) = drop i s"
proof (induction s)
  case Nil then show ?case by simp
next
  case (Cons c t)
  then obtain i where i: "snd (TrimSpace_start t) = drop i t" by blast
  have "drop i t = drop (Suc i) (c # t)" by simp
  moreover have "c # t = drop 0 (c # t)" by simp
  ultimately show ?case using i by (metis TrimSpace_start.simps(2) snd_conv)
qed

lemma DecodeLast_facts:
  assumes "s \<noteq> []" and "DecodeLastRuneInString s = (r, sz)"
  shows "1 \<le> sz" and "sz \<le> length s"
    and "(of_char (s ! (length s - sz)) :: nat) < 128 \<Longrightarrow> r = of_char (s ! (length s - sz))"
proof -
  show 1: "1 \<le> sz" using DecodeLast_width_pos [OF assms(1)] assms(2) by simp
  define n where "n = int (length s)"
  define k where "k = scan_back s (n - 1 - 1) (max (n - 4) 0)"
  define st where "st = (if k < 0 then 0 else k)"
  define d where "d = DecodeRuneInString (drop (nat st) s)"
  have n: "0 < n" using assms(1) by (simp add: n_def)
  have last: "s ! nat (n - 1) = s ! (length s - 1)" by (simp add: n_def nat_diff_distrib')
  have unf: "DecodeLastRuneInString s =
     (if (of_char (s ! nat (n - 1)) :: nat) < 128 then (of_char (s ! nat (n - 1)), 1)
      else if st + int (snd d) \<noteq> n then (RuneError, 1) else d)"
    using assms(1) by (simp add: DecodeLastRuneInString_def Let_def n_def k_def st_def d_def)
  have st0: "0 \<le> st" by (simp add: st_def)
  have "sz \<le> length s \<and> ((of_char (s ! (length s - sz)) :: nat) < 128 \<longrightarrow> r = of_char (s ! (length s - sz)))"
  proof (cases "(of_char (s ! nat (n - 1)) :: nat) < 128")
    case True
    with unf assms(2) have "r = of_char (s ! nat (n - 1))" "sz = 1" by auto
    then show ?thesis using assms(1) last by (cases s) auto
  next
    case hi: False
    show ?thesis
    proof (cases "st + int (snd d) \<noteq> n")
      case True
      with unf hi assms(2) have "sz = 1" by auto
      then show ?thesis using assms(1) hi last by (cases s) auto
    next
      case False
      with unf hi assms(2) have d: "d = (r, sz)" by auto
      from False d have eq: "st + int sz = n" by simp
      then have le: "sz \<le> length s" using st0 by (simp add: n_def)
      have idx: "length s - sz = nat st" using eq st0 by (simp add: n_def)
      have ne: "drop (nat st) s \<noteq> []" using 1 eq st0 by (simp add: n_def)
      then obtain c t where ct: "drop (nat st) s = c # t" by (cases "drop (nat st) s") auto
      have c: "c = s ! nat st" using ct ne by (metis hd_drop_conv_nth list.sel(1) drop_eq_Nil not_le)
      show ?thesis
      proof (intro conjI impI)
        show "sz \<le> length s" by (rule le)
        assume "(of_char (s ! (length s - sz)) :: nat) < 128"
        then have "(of_char c :: nat) < 128" by (simp add: idx c)
        then have "DecodeRuneInString (c # t) = (of_char c, 1)" by (rule Decode_ascii)
        with d have "r = of_char c" by (simp add: d_def ct)
        then show "r = of_char (s ! (length s - sz))" by (simp only: idx c)
      qed
    qed
  qed
  then show "sz \<le> length s"
    and "(of_char (s ! (length s - sz)) :: nat) < 128 \<Longrightarrow> r = of_char (s ! (length s - sz))"
    by blast+
qed


lemma lastIndexFunc_Some:
  assumes "lastIndexFunc s f truth = Some i"
  shows "i < length s \<and> ((of_char (s ! i) :: nat) < 128 \<longrightarrow> f (of_char (s ! i)) = truth)"
  using assms
proof (induction "length s" arbitrary: s rule: less_induct)
  case less
  from less.prems have ne: "s \<noteq> []" by (subst (asm) lastIndexFunc.simps) (auto split: if_splits)
  obtain r sz where d: "DecodeLastRuneInString s = (r, sz)" by (cases "DecodeLastRuneInString s")
  note F = DecodeLast_facts [OF ne d]
  show ?case
  proof (cases "f r = truth")
    case True
    with less.prems ne d have i: "i = length s - sz"
      by (subst (asm) lastIndexFunc.simps) simp
    show ?thesis using F True ne by (auto simp: i)
  next
    case False
    let ?p = "take (length s - sz) s"
    from less.prems ne d False have r: "lastIndexFunc ?p f truth = Some i"
      by (subst (asm) lastIndexFunc.simps) simp
    have "length ?p < length s" using F(1) ne by simp
    from less.hyps [OF this r] show ?thesis by auto
  qed
qed

lemma multibyte_tail:
  assumes "s \<noteq> []" and "128 \<le> (of_char (hd s) :: nat)"
  shows "128 \<le> (of_char (s ! (snd (DecodeRuneInString s) - 1)) :: nat)"
  using assms(1)
proof (cases rule: Decode_cases)
  case (ascii c t)
  with assms(2) show ?thesis by simp
next
  case bad
  then show ?thesis using assms by (cases s) auto
next
  case (two c0 c1 t)
  then show ?thesis using two(6) [of t] by simp
next
  case (three c0 c1 c2 t)
  then show ?thesis using three(10) [of t] by simp
next
  case (four c0 c1 c2 c3 t)
  then show ?thesis using four(12) [of t] by simp
qed

lemma last_take: "0 < n \<Longrightarrow> n \<le> length s \<Longrightarrow> last (take n s) = s ! (n - 1)"
proof -
  assume n: "0 < n" "n \<le> length s"
  then have "take n s \<noteq> []" by auto
  then have "last (take n s) = take n s ! (length (take n s) - 1)" by (rule last_conv_nth)
  also have "\<dots> = take n s ! (n - 1)" using n by simp
  also have "\<dots> = s ! (n - 1)" using n by simp
  finally show ?thesis .
qed

lemma TrimRightFunc_trimmed: "trimmed_slice s (TrimRightFunc s IsSpace)"
proof (cases "lastIndexFunc s IsSpace False")
  case None
  then show ?thesis by (simp add: TrimRightFunc_def trimmed_slice_def)
next
  case (Some i)
  note L = lastIndexFunc_Some [OF Some]
  show ?thesis
  proof (cases "(128::nat) \<le> of_char (s ! i)")
    case True
    let ?w = "snd (DecodeRuneInString (drop i s))"
    have ne: "drop i s \<noteq> []" using L by simp
    have w: "1 \<le> ?w" "?w \<le> length (drop i s)"
      using width_pos [OF ne] width_le [of "drop i s"] by auto
    have r: "TrimRightFunc s IsSpace = take (i + ?w) s"
      using Some True by (simp add: TrimRightFunc_def)
    have hd: "hd (drop i s) = s ! i" using L by (simp add: hd_drop_conv_nth)
    have "128 \<le> (of_char (drop i s ! (?w - 1)) :: nat)"
      using multibyte_tail [OF ne] True hd by simp
    then have b: "128 \<le> (of_char (s ! (i + ?w - 1)) :: nat)" using w L by simp
    have len: "length (take (i + ?w) s) = i + ?w" using w L by simp
    have "last (take (i + ?w) s) = s ! (i + ?w - 1)"
      using w L by (intro last_take) auto
    then have "\<not> asciiSpace (last (take (i + ?w) s))"
      using b asciiSpace_lt by fastforce
    moreover have "take (i + ?w) s = take (i + ?w) (drop 0 s)" by simp
    ultimately show ?thesis unfolding trimmed_slice_def r by blast
  next
    case False
    have r: "TrimRightFunc s IsSpace = take (i + 1) s"
      using Some False by (simp add: TrimRightFunc_def)
    from False L have "\<not> IsSpace (of_char (s ! i))" by simp
    then have ns: "\<not> asciiSpace (s ! i)" using asciiSpace_IsSpace by blast
    have "last (take (i + 1) s) = s ! i" using L last_take [of "i + 1" s] by simp
    moreover have "take (i + 1) s = take (i + 1) (drop 0 s)" by simp
    ultimately show ?thesis unfolding trimmed_slice_def r using ns by metis
  qed
qed

lemma trimmed_slice_drop: "trimmed_slice (drop i s) t \<Longrightarrow> trimmed_slice s t"
  unfolding trimmed_slice_def by (metis drop_drop)

lemma trimmed_slice_butlast: "s \<noteq> [] \<Longrightarrow> trimmed_slice (butlast s) t \<Longrightarrow> trimmed_slice s t"
  unfolding trimmed_slice_def
  by (metis butlast_conv_take drop_take take_take)

lemma TrimSpace_stop_trimmed: "trimmed_slice u (TrimSpace_stop u)"
proof (induction u rule: TrimSpace_stop.induct)
  case (1 u)
  show ?case
  proof (cases "u = []")
    case True then show ?thesis by (simp add: TrimSpace_stop_Nil trimmed_slice_def)
  next
    case ne: False
    show ?thesis
    proof (cases "(128::nat) \<le> of_char (last u)")
      case True
      with ne show ?thesis
        by (subst TrimSpace_stop.simps) (simp add: TrimRightFunc_trimmed)
    next
      case lo: False
      show ?thesis
      proof (cases "asciiSpace (last u)")
        case True
        have "trimmed_slice u (TrimSpace_stop (butlast u))"
          using "1.IH" [OF ne lo True] ne by (rule trimmed_slice_butlast [rotated])
        with ne lo True show ?thesis by (subst TrimSpace_stop.simps) simp
      next
        case False
        have "u = take (length u) (drop 0 u)" by simp
        then have "trimmed_slice u u" unfolding trimmed_slice_def using False by blast
        with ne lo False show ?thesis by (subst TrimSpace_stop.simps) simp
      qed
    qed
  qed
qed

lemma TrimLeftFunc_suffix: "\<exists>i. TrimLeftFunc s f = drop i s"
proof (cases "indexFunc s f False")
  case None
  then have "TrimLeftFunc s f = drop (length s) s" by (simp add: TrimLeftFunc_def)
  then show ?thesis by blast
next
  case (Some i)
  then show ?thesis by (auto simp: TrimLeftFunc_def)
qed

lemma TrimSpace_trimmed: "trimmed_slice s (TrimSpace s)"
proof -
  obtain fl u where su: "TrimSpace_start s = (fl, u)" by (cases "TrimSpace_start s")
  obtain i where u: "u = drop i s" using TrimSpace_start_suffix [of s] su by auto
  show ?thesis
  proof (cases fl)
    case True
    obtain j where j: "TrimLeftFunc u IsSpace = drop j u" using TrimLeftFunc_suffix by blast
    have "trimmed_slice (drop j u) (TrimFunc u IsSpace)"
      unfolding TrimFunc_def j by (rule TrimRightFunc_trimmed)
    then have "trimmed_slice u (TrimFunc u IsSpace)" by (rule trimmed_slice_drop)
    then have "trimmed_slice s (TrimFunc u IsSpace)" unfolding u by (rule trimmed_slice_drop)
    with su True show ?thesis by (simp add: TrimSpace_def)
  next
    case False
    have "trimmed_slice s (TrimSpace_stop u)"
      using TrimSpace_stop_trimmed [of u] unfolding u by (rule trimmed_slice_drop)
    with su False show ?thesis by (simp add: TrimSpace_def)
  qed
qed


lemma TrimSpace_last_not_newline:
  "TrimSpace out \<noteq> [] \<Longrightarrow> last (TrimSpace out) \<noteq> CHR ''\<newline>''"
  using TrimSpace_trimmed [of out] by (auto simp: trimmed_slice_def asciiSpace_def)

lemma Index_single_Some:
  "Index s [c] = Some m \<Longrightarrow> m < length s \<and> s ! m = c"
proof (induction s arbitrary: m)
  case Nil then show ?case by simp
next
  case (Cons a t)
  then show ?case by (cases m) (auto simp: HasPrefix_def split: if_splits)
qed

lemma TrimSpace_title_only:
  assumes "out = t @ ''\<newline>'' @ w" and "CHR ''\<newline>'' \<notin> set t" and "\<forall>c\<in>set w. asciiSpace c"
  shows "CHR ''\<newline>'' \<notin> set (TrimSpace out)"
proof (cases "TrimSpace out = []")
  case True then show ?thesis by simp
next
  case False
  let ?u = "TrimSpace out"
  from TrimSpace_trimmed [of out] False obtain i j where
    u: "?u = take j (drop i out)" and ns: "\<not> asciiSpace (last ?u)"
    by (auto simp: trimmed_slice_def)
  define n where "n = length ?u"
  have tk: "take (length (take j (drop i out))) (drop i out) = take j (drop i out)"
    by (cases "length (drop i out) \<le> j") (simp_all add: min_def)
  have n: "0 < n" "n \<le> length (drop i out)" "?u = take n (drop i out)"
  proof -
    show "0 < n" using False by (simp add: n_def)
    show "n \<le> length (drop i out)" unfolding n_def by (subst u) simp
    show "?u = take n (drop i out)" unfolding n_def using tk u by metis
  qed
  have lastu: "last ?u = out ! (i + n - 1)"
  proof -
    have "last (take n (drop i out)) = drop i out ! (n - 1)" using n by (intro last_take) auto
    also have "\<dots> = out ! (i + (n - 1))" using n by simp
    finally show ?thesis using n by simp
  qed
  have inside: "i + n \<le> length t"
  proof (rule ccontr)
    assume "\<not> i + n \<le> length t"
    then have k: "length t \<le> i + n - 1" by simp
    have lt: "i + n - 1 < length out" using n by simp
    have lo: "length out = length t + length (''\<newline>'' @ w)" by (simp add: assms(1))
    have "out ! (i + n - 1) = (''\<newline>'' @ w) ! (i + n - 1 - length t)"
      using k by (simp add: assms(1) nth_append)
    moreover have "i + n - 1 - length t < length (''\<newline>'' @ w)"
      using lt k lo by linarith
    ultimately have "out ! (i + n - 1) \<in> set (''\<newline>'' @ w)"
      using nth_mem by metis
    then have "asciiSpace (out ! (i + n - 1))"
      using assms(3) by (auto simp: asciiSpace_def)
    then show False using ns lastu by simp
  qed
  have "?u = take n (drop i t)"
    using n(3) inside unfolding assms(1) by simp
  then have "set ?u \<subseteq> set t" by (metis set_drop_subset set_take_subset subset_trans)
  then show ?thesis using assms(2) by blast
qed


text \<open>
  \<^verbatim>\<open>has_reserved s\<close>: some byte of \<open>s\<close> is one of the nine reserved characters.
  Equations that run the loops on a non-empty literal, for evaluating concrete inputs.
\<close>

definition has_reserved :: "string \<Rightarrow> bool" where
  "has_reserved s \<longleftrightarrow> (\<exists>c\<in>set s. (of_char c :: nat) \<in> set reserved_runes)"

lemma sanitizeFilename_take: "sanitizeFilename s = take 80 (sanitize_loop [] s)"
  by (simp add: sanitizeFilename_def Let_def)

lemma sanitize_loop_Cons:
  "sanitize_loop b (c # t) =
     sanitize_loop (AppendRune b (replace_rune (fst (DecodeRuneInString (c # t)))))
       (drop (snd (DecodeRuneInString (c # t))) (c # t))"
  by (rule sanitize_loop_step) simp_all

lemma ValidString_Cons:
  "ValidString (c # t) \<longleftrightarrow>
     (fst (DecodeRuneInString (c # t)), snd (DecodeRuneInString (c # t))) \<noteq> (RuneError, 1) \<and>
     ValidString (drop (snd (DecodeRuneInString (c # t))) (c # t))"
  by (rule ValidString_step) simp_all

lemma RuneCountInString_Nil: "RuneCountInString [] = 0"
  by (simp add: RuneCountInString.simps)

lemma RuneCountInString_Cons:
  "RuneCountInString (c # t) =
     1 + RuneCountInString (drop (snd (DecodeRuneInString (c # t))) (c # t))"
  by (subst RuneCountInString.simps) (simp add: split_beta)

lemmas utf8_eval = DecodeRuneInString_def acceptRange.simps RuneError_def AppendRune_def
  replace_rune_def reserved_runes_def char_of_eq_iff

lemmas sanitize_eval = sanitizeFilename_def sanitize_loop_Cons ValidString_Cons
  RuneCountInString_Nil RuneCountInString_Cons has_reserved_def utf8_eval

section \<open>Claims about sanitizeFilename\<close>

text \<open>
  C4, as the code has it. For every input, the result of \<^verbatim>\<open>sanitizeFilename\<close> contains none
  of the bytes \<^verbatim>\<open>/ \ : * ? " < > |\<close> and has at most 80 bytes, hence at most 80 characters;
  and every input that is valid UTF-8, contains none of those characters and has at most
  80 bytes is returned unchanged. (The claim promised the last part for every string of
  fewer than 80 characters; the loop rewrites a byte that is not valid UTF-8 to the three
  bytes of U+FFFD, and the cut counts bytes, not characters.)
\<close>

theorem sanitizeFilename_safe:
  "\<not> has_reserved (sanitizeFilename s) \<and>
   length (sanitizeFilename s) \<le> 80 \<and>
   RuneCountInString (sanitizeFilename s) \<le> 80 \<and>
   (ValidString s \<and> \<not> has_reserved s \<and> length s \<le> 80 \<longrightarrow> sanitizeFilename s = s)"
proof (intro conjI impI)
  show "\<not> has_reserved (sanitizeFilename s)"
    unfolding has_reserved_def sanitizeFilename_take
    using sanitize_loop_no_reserved [of _ s] by (meson in_set_takeD)
  show len: "length (sanitizeFilename s) \<le> 80"
    by (simp add: sanitizeFilename_take)
  show "RuneCountInString (sanitizeFilename s) \<le> 80"
    using RuneCount_le_length [of "sanitizeFilename s"] len by simp
next
  assume a: "ValidString s \<and> \<not> has_reserved s \<and> length s \<le> 80"
  then have "sanitize_loop [] s = s"
    using sanitize_loop_valid_id [of s] by (simp add: has_reserved_def)
  with a show "sanitizeFilename s = s" by (simp add: sanitizeFilename_take)
qed

theorem sanitizeFilename_safe_witness:
  "ValidString ''My Title'' \<and> \<not> has_reserved ''My Title'' \<and> length ''My Title'' \<le> 80 \<and>
   sanitizeFilename ''My Title'' = ''My Title'' \<and>
   sanitizeFilename ''a/b:c'' = ''a_b_c'' \<and>
   \<not> has_reserved (sanitizeFilename ''a/b:c'')"
proof -
  have v: "ValidString ''My Title''" by (simp add: sanitize_eval)
  have h: "\<not> has_reserved ''My Title''" by (simp add: sanitize_eval)
  have e: "sanitizeFilename ''a/b:c'' = ''a_b_c''" by (simp add: sanitize_eval)
  show ?thesis
    using sanitizeFilename_safe [of "''My Title''"] sanitizeFilename_safe [of "''a/b:c''"] v h e
    by simp
qed

text \<open>
  C4 as stated fails. The one-byte title \<^verbatim>\<open>"\xe9"\<close> (Latin-1 for a lower-case e with acute
  accent, as a tool writing in a legacy code page prints it) holds no reserved character
  and is shorter than 80, yet it comes back as the three bytes of U+FFFD. And the valid
  UTF-8 title of 77 letters followed by two two-byte characters has 79 characters, none
  reserved, and comes back cut to 80 bytes.
\<close>

theorem sanitizeFilename_unchanged_counterexample:
  "\<not> has_reserved [CHR 0xE9] \<and> length [CHR 0xE9] < 80 \<and> RuneCountInString [CHR 0xE9] < 80 \<and>
   sanitizeFilename [CHR 0xE9] = [CHR 0xEF, CHR 0xBF, CHR 0xBD] \<and>
   sanitizeFilename [CHR 0xE9] \<noteq> [CHR 0xE9] \<and>
   ValidString (''aaaaaaaaaaaaaaaaaaaaaaaaaaaaaaaaaaaaaaaaaaaaaaaaaaaaaaaaaaaaaaaaaaaaaaaaaaaaa'' @ [CHR 0xC3, CHR 0xA9, CHR 0xC3, CHR 0xA9]) \<and>
   \<not> has_reserved (''aaaaaaaaaaaaaaaaaaaaaaaaaaaaaaaaaaaaaaaaaaaaaaaaaaaaaaaaaaaaaaaaaaaaaaaaaaaaa'' @ [CHR 0xC3, CHR 0xA9, CHR 0xC3, CHR 0xA9]) \<and>
   RuneCountInString (''aaaaaaaaaaaaaaaaaaaaaaaaaaaaaaaaaaaaaaaaaaaaaaaaaaaaaaaaaaaaaaaaaaaaaaaaaaaaa'' @ [CHR 0xC3, CHR 0xA9, CHR 0xC3, CHR 0xA9]) = 79 \<and>
   sanitizeFilename (''aaaaaaaaaaaaaaaaaaaaaaaaaaaaaaaaaaaaaaaaaaaaaaaaaaaaaaaaaaaaaaaaaaaaaaaaaaaaa'' @ [CHR 0xC3, CHR 0xA9, CHR 0xC3, CHR 0xA9])
     = ''aaaaaaaaaaaaaaaaaaaaaaaaaaaaaaaaaaaaaaaaaaaaaaaaaaaaaaaaaaaaaaaaaaaaaaaaaaaaa'' @ [CHR 0xC3, CHR 0xA9, CHR 0xC3] \<and>
   sanitizeFilename (''aaaaaaaaaaaaaaaaaaaaaaaaaaaaaaaaaaaaaaaaaaaaaaaaaaaaaaaaaaaaaaaaaaaaaaaaaaaaa'' @ [CHR 0xC3, CHR 0xA9, CHR 0xC3, CHR 0xA9])
     \<noteq> ''aaaaaaaaaaaaaaaaaaaaaaaaaaaaaaaaaaaaaaaaaaaaaaaaaaaaaaaaaaaaaaaaaaaaaaaaaaaaa'' @ [CHR 0xC3, CHR 0xA9, CHR 0xC3, CHR 0xA9]"
  by (simp add: sanitize_eval)

text \<open>
  C10, as the code has it. \<^verbatim>\<open>sanitizeFilename\<close> is idempotent on every input whose rewritten
  text, before the cut, has at most 80 bytes; every valid UTF-8 input of at most 80 bytes
  is such an input. (The claim said every input of at most 80 bytes: a byte that is not
  valid UTF-8 grows to three bytes, so such an input may still be cut.)
\<close>

theorem sanitizeFilename_idempotent:
  "(length (sanitize_loop [] s) \<le> 80 \<longrightarrow>
      sanitizeFilename (sanitizeFilename s) = sanitizeFilename s) \<and>
   (ValidString s \<and> length s \<le> 80 \<longrightarrow>
      length (sanitize_loop [] s) \<le> 80 \<and>
      sanitizeFilename (sanitizeFilename s) = sanitizeFilename s)"
proof -
  have main: "sanitizeFilename (sanitizeFilename s) = sanitizeFilename s"
    if le: "length (sanitize_loop [] s) \<le> 80"
  proof -
    let ?t = "sanitize_loop [] s"
    have t: "sanitizeFilename s = ?t" using le by (simp add: sanitizeFilename_take)
    have "\<forall>c\<in>set ?t. (of_char c :: nat) \<notin> set reserved_runes"
      using sanitize_loop_no_reserved by blast
    then have "sanitize_loop [] ?t = ?t"
      using sanitize_loop_valid_id [OF sanitize_loop_valid [of s]] by blast
    then show ?thesis using le by (simp add: t sanitizeFilename_take)
  qed
  show ?thesis using main sanitize_loop_valid_length [of s] by auto
qed

theorem sanitizeFilename_idempotent_witness:
  "length (sanitize_loop [] ''a/b:c'') \<le> 80 \<and> ValidString ''a/b:c'' \<and> length ''a/b:c'' \<le> 80 \<and>
   sanitizeFilename (sanitizeFilename ''a/b:c'') = sanitizeFilename ''a/b:c''"
proof -
  have a: "length (sanitize_loop [] ''a/b:c'') \<le> 80" by (simp add: sanitize_eval)
  have v: "ValidString ''a/b:c''" by (simp add: sanitize_eval)
  show ?thesis
    using sanitizeFilename_idempotent [of "''a/b:c''"] a v by simp
qed

text \<open>
  C10 as stated fails at an input of 79 bytes: the byte \<^verbatim>\<open>0xff\<close>, 76 letters and one
  two-byte character. The first pass writes U+FFFD for the first byte (81 bytes in all)
  and the cut leaves the first byte of the last character; the second pass turns that
  lone byte into U+FFFD and cuts again.
\<close>

theorem sanitizeFilename_idempotent_counterexample:
  "length (CHR 0xFF # ''aaaaaaaaaaaaaaaaaaaaaaaaaaaaaaaaaaaaaaaaaaaaaaaaaaaaaaaaaaaaaaaaaaaaaaaaaaaa'' @ [CHR 0xC3, CHR 0xA9]) \<le> 80 \<and>
   length (sanitizeFilename (CHR 0xFF # ''aaaaaaaaaaaaaaaaaaaaaaaaaaaaaaaaaaaaaaaaaaaaaaaaaaaaaaaaaaaaaaaaaaaaaaaaaaaa'' @ [CHR 0xC3, CHR 0xA9])) \<le> 80 \<and>
   sanitizeFilename (CHR 0xFF # ''aaaaaaaaaaaaaaaaaaaaaaaaaaaaaaaaaaaaaaaaaaaaaaaaaaaaaaaaaaaaaaaaaaaaaaaaaaaa'' @ [CHR 0xC3, CHR 0xA9])
     = [CHR 0xEF, CHR 0xBF, CHR 0xBD] @ ''aaaaaaaaaaaaaaaaaaaaaaaaaaaaaaaaaaaaaaaaaaaaaaaaaaaaaaaaaaaaaaaaaaaaaaaaaaaa'' @ [CHR 0xC3] \<and>
   sanitizeFilename (sanitizeFilename (CHR 0xFF # ''aaaaaaaaaaaaaaaaaaaaaaaaaaaaaaaaaaaaaaaaaaaaaaaaaaaaaaaaaaaaaaaaaaaaaaaaaaaa'' @ [CHR 0xC3, CHR 0xA9]))
     = [CHR 0xEF, CHR 0xBF, CHR 0xBD] @ ''aaaaaaaaaaaaaaaaaaaaaaaaaaaaaaaaaaaaaaaaaaaaaaaaaaaaaaaaaaaaaaaaaaaaaaaaaaaa'' @ [CHR 0xEF] \<and>
   sanitizeFilename (sanitizeFilename (CHR 0xFF # ''aaaaaaaaaaaaaaaaaaaaaaaaaaaaaaaaaaaaaaaaaaaaaaaaaaaaaaaaaaaaaaaaaaaaaaaaaaaa'' @ [CHR 0xC3, CHR 0xA9]))
     \<noteq> sanitizeFilename (CHR 0xFF # ''aaaaaaaaaaaaaaaaaaaaaaaaaaaaaaaaaaaaaaaaaaaaaaaaaaaaaaaaaaaaaaaaaaaaaaaaaaaa'' @ [CHR 0xC3, CHR 0xA9])"
  by (simp add: sanitize_eval)

section \<open>Sample surroundings\<close>

text \<open>
  A macOS platform and a few surroundings, used to run the model on concrete inputs.
\<close>

definition mac :: platform where
  "mac = \<lparr>GOOS = ''darwin'',
          UserConfigDir = Inr ''/Users/u/Library/Application Support'',
          TempDir = ''/tmp'',
          Join = (\<lambda>a b. a @ ''/'' @ b),
          embeddedBinaries = [''yt-dlp-mac'' \<mapsto> ''embedded mac build'',
                              ''yt-dlp-win.exe'' \<mapsto> ''embedded windows build'']\<rparr>"

definition offline :: env where
  "offline = \<lparr>Exec = (\<lambda>bin args. Inl ''exit status 1''),
              Get = (\<lambda>url. Inl ''dial tcp: no route to host''),
              Do = (\<lambda>url. Inl ''dial tcp: no route to host''),
              NewRequestErr = (\<lambda>url. None),
              jsonDecode = (\<lambda>resp. Inl ''unexpected end of JSON input''),
              StatErr = (\<lambda>p. None),
              OpenErr = (\<lambda>p. None),
              WriteErr = (\<lambda>p. None),
              RenameErr = (\<lambda>a b. None)\<rparr>"

definition ok_response :: "string \<Rightarrow> http_response" where
  "ok_response b = \<lparr>Header = Map.empty, Body = b, BodyErr = None\<rparr>"

definition feed_2024_02 :: release where
  "feed_2024_02 =
     \<lparr>TagName = ''2024.02.01'',
      Assets = [\<lparr>Name = ''yt-dlp'', BrowserDownloadURL = ''https://example/yt-dlp''\<rparr>,
                \<lparr>Name = ''yt-dlp_macos'', BrowserDownloadURL = ''https://example/yt-dlp_macos''\<rparr>,
                \<lparr>Name = ''yt-dlp.exe'', BrowserDownloadURL = ''https://example/yt-dlp.exe''\<rparr>]\<rparr>"

definition online :: env where
  "online = offline
     \<lparr>Get := (\<lambda>url. if url = feedURL then Inr (ok_response ''{}'')
                     else if url = ''https://example/yt-dlp_macos'' then Inr (ok_response ''new mac build'')
                     else Inl ''404''),
      jsonDecode := (\<lambda>resp. Inr feed_2024_02)\<rparr>"

section \<open>Claims about the release check and the first-run extraction\<close>

subsection \<open>getLatestYtDlpRelease\<close>

lemma getLatest_state [simp]:
  "snd (getLatestYtDlpRelease pl en s) = emit (HttpGet feedURL) s"
  by (simp add: getLatestYtDlpRelease_def Let_def split: sum.splits option.splits)

lemma getLatest_Get_error:
  "Get en feedURL = Inl e \<Longrightarrow> fst (getLatestYtDlpRelease pl en s) = Inl e"
  by (simp add: getLatestYtDlpRelease_def Let_def)

lemma getLatest_decode_error:
  "Get en feedURL = Inr resp \<Longrightarrow> jsonDecode en resp = Inl e \<Longrightarrow>
   fst (getLatestYtDlpRelease pl en s) = Inl e"
  by (simp add: getLatestYtDlpRelease_def Let_def)

lemma getLatest_not_found:
  "Get en feedURL = Inr resp \<Longrightarrow> jsonDecode en resp = Inr rel \<Longrightarrow>
   find (\<lambda>a. Name a = assetName pl) (Assets rel) = None \<Longrightarrow>
   fst (getLatestYtDlpRelease pl en s) = Inl (''asset '' @ assetName pl @ '' not found in release'')"
  by (simp add: getLatestYtDlpRelease_def Let_def)

lemma getLatest_found:
  "Get en feedURL = Inr resp \<Longrightarrow> jsonDecode en resp = Inr rel \<Longrightarrow>
   find (\<lambda>a. Name a = assetName pl) (Assets rel) = Some a \<Longrightarrow>
   fst (getLatestYtDlpRelease pl en s) = Inr (TagName rel, BrowserDownloadURL a)"
  by (simp add: getLatestYtDlpRelease_def Let_def)

lemma find_None_names: "find (\<lambda>a. Name a = n) as = None \<longleftrightarrow> n \<notin> Name ` set as"
  by (auto simp: find_None_iff)

text \<open>
  C5. For a decoded release listing, \<^verbatim>\<open>getLatestYtDlpRelease\<close> returns the tag of the
  release and the download URL of an asset (the first) whose name is exactly the asset
  name of the platform, \<^verbatim>\<open>yt-dlp.exe\<close> on Windows and \<^verbatim>\<open>yt-dlp_macos\<close> otherwise; and it
  returns an error exactly when the request fails, the body cannot be decoded, or no
  asset of the listing has that name.
\<close>

theorem getLatestYtDlpRelease_exact_asset:
  "assetName pl = (if GOOS pl = ''windows'' then ''yt-dlp.exe'' else ''yt-dlp_macos'') \<and>
   (\<forall>resp rel tag url.
      Get en feedURL = Inr resp \<and> jsonDecode en resp = Inr rel \<and>
      fst (getLatestYtDlpRelease pl en s) = Inr (tag, url) \<longrightarrow>
        tag = TagName rel \<and>
        (\<exists>a\<in>set (Assets rel). Name a = assetName pl \<and> BrowserDownloadURL a = url) \<and>
        (\<exists>a. find (\<lambda>a. Name a = assetName pl) (Assets rel) = Some a \<and> BrowserDownloadURL a = url)) \<and>
   (isl (fst (getLatestYtDlpRelease pl en s)) \<longleftrightarrow>
      (\<exists>e. Get en feedURL = Inl e) \<or>
      (\<exists>resp e. Get en feedURL = Inr resp \<and> jsonDecode en resp = Inl e) \<or>
      (\<exists>resp rel. Get en feedURL = Inr resp \<and> jsonDecode en resp = Inr rel \<and>
         assetName pl \<notin> Name ` set (Assets rel)))"
proof (intro conjI allI impI)
  show "assetName pl = (if GOOS pl = ''windows'' then ''yt-dlp.exe'' else ''yt-dlp_macos'')"
    by (simp add: assetName_def)
next
  fix resp rel tag url
  assume a: "Get en feedURL = Inr resp \<and> jsonDecode en resp = Inr rel \<and>
      fst (getLatestYtDlpRelease pl en s) = Inr (tag, url)"
  show "tag = TagName rel"
    using a by (cases "find (\<lambda>a. Name a = assetName pl) (Assets rel)")
      (auto simp: getLatest_not_found getLatest_found)
  show "\<exists>a. find (\<lambda>a. Name a = assetName pl) (Assets rel) = Some a \<and> BrowserDownloadURL a = url"
    using a by (cases "find (\<lambda>a. Name a = assetName pl) (Assets rel)")
      (auto simp: getLatest_not_found getLatest_found)
  then show "\<exists>a\<in>set (Assets rel). Name a = assetName pl \<and> BrowserDownloadURL a = url"
    by (auto simp: find_Some_iff)
next
  show "isl (fst (getLatestYtDlpRelease pl en s)) \<longleftrightarrow>
      (\<exists>e. Get en feedURL = Inl e) \<or>
      (\<exists>resp e. Get en feedURL = Inr resp \<and> jsonDecode en resp = Inl e) \<or>
      (\<exists>resp rel. Get en feedURL = Inr resp \<and> jsonDecode en resp = Inr rel \<and>
         assetName pl \<notin> Name ` set (Assets rel))"
    by (auto simp: getLatestYtDlpRelease_def Let_def find_None_names [symmetric]
          split: sum.splits option.splits)
qed

lemma online_latest:
  "fst (getLatestYtDlpRelease mac online s) = Inr (''2024.02.01'', ''https://example/yt-dlp_macos'')"
  by (simp add: getLatestYtDlpRelease_def Let_def online_def offline_def feed_2024_02_def
        assetName_def mac_def)

theorem getLatestYtDlpRelease_exact_asset_witness:
  "Get online feedURL = Inr (ok_response ''{}'') \<and>
   jsonDecode online (ok_response ''{}'') = Inr feed_2024_02 \<and>
   fst (getLatestYtDlpRelease mac online (init_state Map.empty))
     = Inr (''2024.02.01'', ''https://example/yt-dlp_macos'') \<and>
   ''2024.02.01'' = TagName feed_2024_02 \<and>
   (\<exists>a\<in>set (Assets feed_2024_02).
      Name a = assetName mac \<and> BrowserDownloadURL a = ''https://example/yt-dlp_macos'') \<and>
   isl (fst (getLatestYtDlpRelease mac offline (init_state Map.empty)))"
proof -
  have g: "Get online feedURL = Inr (ok_response ''{}'')"
    by (simp add: online_def offline_def)
  have d: "jsonDecode online (ok_response ''{}'') = Inr feed_2024_02"
    by (simp add: online_def offline_def)
  have o: "Get offline feedURL = Inl ''dial tcp: no route to host''"
    by (simp add: offline_def)
  show ?thesis
    using getLatestYtDlpRelease_exact_asset [of mac online "init_state Map.empty"]
      getLatestYtDlpRelease_exact_asset [of mac offline "init_state Map.empty"]
      g d o online_latest [of "init_state Map.empty"]
    by (simp add: feed_2024_02_def)
qed


subsection \<open>extractYtDlp\<close>

definition extract_dir :: "platform \<Rightarrow> string" where
  "extract_dir pl =
     Join pl (case UserConfigDir pl of Inl err \<Rightarrow> TempDir pl | Inr d \<Rightarrow> d) CONFIG_DIR"

lemma extract_outPath_dir: "extract_outPath pl = Join pl (extract_dir pl) (outName pl)"
  by (simp add: extract_outPath_def extract_dir_def Let_def)

lemma extractYtDlp_exists:
  assumes "\<not> stat_IsNotExist en (emit (Stat (extract_outPath pl)) (emit (MkdirAll (extract_dir pl)) s))
             (extract_outPath pl)"
  shows "extractYtDlp pl en s =
           (Return (extract_outPath pl),
            emit (Stat (extract_outPath pl)) (emit (MkdirAll (extract_dir pl)) s))"
  using assms
  by (simp add: extractYtDlp_def extract_outPath_def extract_dir_def Let_def)

lemma extractYtDlp_Return:
  "fst (extractYtDlp pl en s) = Return p \<Longrightarrow> p = extract_outPath pl"
  by (auto simp: extractYtDlp_def extract_outPath_def Let_def
        split: if_splits option.splits prod.splits)

lemma extractYtDlp_Fatal:
  "fst (extractYtDlp pl en s) = Fatal m \<Longrightarrow> files s (extract_outPath pl) = None"
  by (auto simp: extractYtDlp_def extract_outPath_def Let_def stat_IsNotExist_def
        split: if_splits option.splits prod.splits)

lemma extractYtDlp_globals:
  "ytdlpPath (snd (extractYtDlp pl en s)) = ytdlpPath s"
  "ytdlpVersion (snd (extractYtDlp pl en s)) = ytdlpVersion s"
  by (auto simp: extractYtDlp_def Let_def os_WriteFile_def
        split: if_splits option.splits prod.splits)

definition is_file_event :: "event \<Rightarrow> bool" where
  "is_file_event e =
     (case e of ReadEmbedded n \<Rightarrow> True | WriteFile p \<Rightarrow> True | OpenFile p \<Rightarrow> True
      | Copy p \<Rightarrow> True | Rename a b \<Rightarrow> True | _ \<Rightarrow> False)"

text \<open>
  C9. When a file already exists at the target path, \<^verbatim>\<open>extractYtDlp\<close> returns that path;
  it has only made sure the directory exists and looked at the path: it neither reads the
  embedded binary nor writes a file, and every file keeps its content. The fatal exit
  happens only when there was no file at the target path. When the per-user config
  directory is known, the target path is the path the updater installs to.
\<close>

theorem extractYtDlp_keeps_existing:
  "(files s (extract_outPath pl) \<noteq> None \<longrightarrow>
      fst (extractYtDlp pl en s) = Return (extract_outPath pl) \<and>
      files (snd (extractYtDlp pl en s)) = files s \<and>
      trace (snd (extractYtDlp pl en s))
        = trace s @ [MkdirAll (extract_dir pl), Stat (extract_outPath pl)] \<and>
      filter is_file_event (trace (snd (extractYtDlp pl en s))) = filter is_file_event (trace s)) \<and>
   (\<forall>m. fst (extractYtDlp pl en s) = Fatal m \<longrightarrow> files s (extract_outPath pl) = None) \<and>
   (\<forall>d. UserConfigDir pl = Inr d \<longrightarrow> download_outPath pl = extract_outPath pl)"
proof (intro conjI allI impI)
  assume ex: "files s (extract_outPath pl) \<noteq> None"
  then have "\<not> stat_IsNotExist en (emit (Stat (extract_outPath pl)) (emit (MkdirAll (extract_dir pl)) s))
             (extract_outPath pl)"
    by (simp add: stat_IsNotExist_def)
  note r = extractYtDlp_exists [OF this]
  show "fst (extractYtDlp pl en s) = Return (extract_outPath pl)" by (simp add: r)
  show "files (snd (extractYtDlp pl en s)) = files s" by (simp add: r)
  show "trace (snd (extractYtDlp pl en s))
        = trace s @ [MkdirAll (extract_dir pl), Stat (extract_outPath pl)]" by (simp add: r)
  show "filter is_file_event (trace (snd (extractYtDlp pl en s))) = filter is_file_event (trace s)"
    by (simp add: r is_file_event_def)
next
  fix m assume "fst (extractYtDlp pl en s) = Fatal m"
  then show "files s (extract_outPath pl) = None" by (rule extractYtDlp_Fatal)
next
  fix d assume "UserConfigDir pl = Inr d"
  then show "download_outPath pl = extract_outPath pl"
    by (simp add: download_outPath_def extract_outPath_def)
qed

definition mac_bin :: string where
  "mac_bin = ''/Users/u/Library/Application Support/tatatext-helper/yt-dlp''"

lemma mac_paths:
  "extract_outPath mac = mac_bin" "download_outPath mac = mac_bin"
  "extract_dir mac = ''/Users/u/Library/Application Support/tatatext-helper''"
  by (simp_all add: extract_outPath_def download_outPath_def extract_dir_def mac_def mac_bin_def
        CONFIG_DIR_def outName_def)

definition no_embedded :: platform where
  "no_embedded = mac\<lparr>embeddedBinaries := Map.empty\<rparr>"

theorem extractYtDlp_keeps_existing_witness:
  "files (init_state [mac_bin \<mapsto> ''updated build'']) (extract_outPath mac) \<noteq> None \<and>
   extractYtDlp mac offline (init_state [mac_bin \<mapsto> ''updated build''])
     = (Return mac_bin,
        \<lparr>ytdlpPath = [], ytdlpVersion = [], files = [mac_bin \<mapsto> ''updated build''],
         trace = [MkdirAll ''/Users/u/Library/Application Support/tatatext-helper'', Stat mac_bin]\<rparr>) \<and>
   fst (extractYtDlp no_embedded offline (init_state Map.empty))
     = Fatal ''failed to read embedded yt-dlp-mac: open yt-dlp-mac: file does not exist'' \<and>
   files (init_state Map.empty) (extract_outPath no_embedded) = None \<and>
   UserConfigDir mac = Inr ''/Users/u/Library/Application Support'' \<and>
   download_outPath mac = extract_outPath mac"
proof -
  let ?s = "init_state [mac_bin \<mapsto> ''updated build'']"
  have e: "files ?s (extract_outPath mac) \<noteq> None"
    by (simp add: init_state_def mac_paths)
  have f: "fst (extractYtDlp no_embedded offline (init_state Map.empty))
     = Fatal ''failed to read embedded yt-dlp-mac: open yt-dlp-mac: file does not exist''"
    by (simp add: extractYtDlp_def Let_def no_embedded_def mac_def offline_def init_state_def
          stat_IsNotExist_def binName_def)
  have u: "UserConfigDir mac = Inr ''/Users/u/Library/Application Support''"
    by (simp add: mac_def)
  have "extractYtDlp mac offline ?s = (fst (extractYtDlp mac offline ?s), snd (extractYtDlp mac offline ?s))"
    by simp
  moreover have "snd (extractYtDlp mac offline ?s) =
     \<lparr>ytdlpPath = [], ytdlpVersion = [], files = [mac_bin \<mapsto> ''updated build''],
         trace = [MkdirAll ''/Users/u/Library/Application Support/tatatext-helper'', Stat mac_bin]\<rparr>"
    using extractYtDlp_keeps_existing [of ?s mac offline] e extractYtDlp_globals [of mac offline ?s]
    by (simp add: init_state_def mac_paths)
  ultimately show ?thesis
    using extractYtDlp_keeps_existing [of ?s mac offline]
      extractYtDlp_keeps_existing [of "init_state Map.empty" no_embedded offline] e f u
    by (simp add: mac_paths)
qed


subsection \<open>downloadYtDlp and checkAndUpdate\<close>

lemma tmpPath_neq_outPath: "download_tmpPath pl \<noteq> download_outPath pl"
  by (simp add: download_tmpPath_def)

text \<open>
  The stages of a download, read off the surroundings: the request for the asset, the
  creation of the temp file, the copy into it, and the rename.
\<close>

definition download_succeeds :: "platform \<Rightarrow> env \<Rightarrow> string \<Rightarrow> bool" where
  "download_succeeds pl en url \<longleftrightarrow>
     (\<exists>dl. Get en url = Inr dl \<and>
        OpenErr en (download_tmpPath pl) = None \<and>
        snd (io_Copy en (download_tmpPath pl) dl) = None \<and>
        RenameErr en (download_tmpPath pl) (download_outPath pl) = None)"

lemma downloadYtDlp_globals [simp]:
  "ytdlpPath (snd (downloadYtDlp pl en url s)) = ytdlpPath s"
  "ytdlpVersion (snd (downloadYtDlp pl en url s)) = ytdlpVersion s"
  by (simp_all add: downloadYtDlp_def Let_def split: sum.splits option.splits)

lemma downloadYtDlp_other_files:
  "p \<noteq> download_tmpPath pl \<Longrightarrow> p \<noteq> download_outPath pl \<Longrightarrow>
   files (snd (downloadYtDlp pl en url s)) p = files s p"
  by (simp add: downloadYtDlp_def download_tmpPath_def Let_def split: sum.splits option.splits)

lemma downloadYtDlp_Inr_iff:
  "(\<exists>p. fst (downloadYtDlp pl en url s) = Inr p) \<longleftrightarrow> download_succeeds pl en url"
  by (auto simp: downloadYtDlp_def download_succeeds_def download_tmpPath_def Let_def
        split: sum.splits option.splits)

lemma downloadYtDlp_Inr_path:
  "fst (downloadYtDlp pl en url s) = Inr p \<Longrightarrow> p = download_outPath pl"
  by (auto simp: downloadYtDlp_def Let_def split: sum.splits option.splits)

lemma downloadYtDlp_Inl_outPath:
  "fst (downloadYtDlp pl en url s) = Inl e \<Longrightarrow>
   files (snd (downloadYtDlp pl en url s)) (download_outPath pl) = files s (download_outPath pl)"
  using tmpPath_neq_outPath [of pl]
  by (auto simp: downloadYtDlp_def download_tmpPath_def Let_def split: sum.splits option.splits)

lemma downloadYtDlp_Inr_content:
  "Get en url = Inr dl \<Longrightarrow> fst (downloadYtDlp pl en url s) = Inr p \<Longrightarrow>
   files (snd (downloadYtDlp pl en url s)) (download_outPath pl) = Some (Body dl) \<and>
   BodyErr dl = None"
  using tmpPath_neq_outPath [of pl]
  by (auto simp: downloadYtDlp_def download_tmpPath_def Let_def io_Copy_def write_bytes_def
        split: sum.splits option.splits prod.splits if_splits)

text \<open>
  What a check cycle leaves behind, by the way it ended: \<open>latest\<close> is the answer of the
  release feed and \<open>s0\<close>, \<open>s1\<close>, \<open>s2\<close> are the states on the way.
\<close>

lemma checkAndUpdate_unfold:
  fixes pl en s
  defines "s0 \<equiv> emit (Log ''checking for yt-dlp updates...'') s"
  defines "latest \<equiv> fst (getLatestYtDlpRelease pl en s0)"
  defines "s1 \<equiv> emit (HttpGet feedURL) s0"
  shows "checkAndUpdate pl en s =
    (case latest of
       Inl err \<Rightarrow> emit (Log (''update check failed: '' @ err)) s1
     | Inr (latestVersion, downloadURL) \<Rightarrow>
         if ytdlpVersion s = latestVersion
         then emit (Log (''yt-dlp is up to date ('' @ ytdlpVersion s @ '')'')) s1
         else
           (let s2 = emit (Log (''updating yt-dlp '' @ ytdlpVersion s @ arrow @ latestVersion)) s1 in
            case fst (downloadYtDlp pl en downloadURL s2) of
              Inl err \<Rightarrow>
                emit (Log (''update download failed: '' @ err)) (snd (downloadYtDlp pl en downloadURL s2))
            | Inr newPath \<Rightarrow>
                emit (Log (''yt-dlp updated to '' @ latestVersion))
                  ((snd (downloadYtDlp pl en downloadURL s2))
                     \<lparr>ytdlpPath := newPath, ytdlpVersion := latestVersion\<rparr>)))"
proof -
  have g: "getLatestYtDlpRelease pl en s0 = (latest, s1)"
    by (simp add: latest_def s1_def prod_eq_iff)
  show ?thesis
    unfolding checkAndUpdate_def s0_def [symmetric] g
    by (auto simp: Let_def s0_def s1_def split: sum.splits prod.splits)
qed

lemma getLatest_fst_state:
  "fst (getLatestYtDlpRelease pl en s) = fst (getLatestYtDlpRelease pl en s')"
  by (simp add: getLatestYtDlpRelease_def Let_def split: sum.splits option.splits)

lemma downloadYtDlp_fst_state:
  "fst (downloadYtDlp pl en url s) = fst (downloadYtDlp pl en url s')"
  by (simp add: downloadYtDlp_def Let_def split: sum.splits option.splits)


text \<open>
  The ways a cycle can fail, read off the surroundings alone: the release-feed request,
  the decoding of the metadata, the asset lookup, the asset download, the creation of the
  temp file, the write into it, the rename. And the one way it installs: the feed names a
  version other than the current one and every stage succeeds.
\<close>

definition update_stage_fails :: "platform \<Rightarrow> env \<Rightarrow> bool" where
  "update_stage_fails pl en \<longleftrightarrow>
     (\<exists>e. Get en feedURL = Inl e) \<or>
     (\<exists>resp e. Get en feedURL = Inr resp \<and> jsonDecode en resp = Inl e) \<or>
     (\<exists>resp rel. Get en feedURL = Inr resp \<and> jsonDecode en resp = Inr rel \<and>
        assetName pl \<notin> Name ` set (Assets rel)) \<or>
     (\<exists>resp rel a. Get en feedURL = Inr resp \<and> jsonDecode en resp = Inr rel \<and>
        find (\<lambda>a. Name a = assetName pl) (Assets rel) = Some a \<and>
        ((\<exists>e. Get en (BrowserDownloadURL a) = Inl e) \<or>
         (\<exists>e. OpenErr en (download_tmpPath pl) = Some e) \<or>
         (\<exists>dl e. Get en (BrowserDownloadURL a) = Inr dl \<and>
            snd (io_Copy en (download_tmpPath pl) dl) = Some e) \<or>
         (\<exists>e. RenameErr en (download_tmpPath pl) (download_outPath pl) = Some e)))"

definition update_installs :: "platform \<Rightarrow> env \<Rightarrow> state \<Rightarrow> bool" where
  "update_installs pl en s \<longleftrightarrow>
     (\<exists>resp rel a. Get en feedURL = Inr resp \<and> jsonDecode en resp = Inr rel \<and>
        find (\<lambda>a. Name a = assetName pl) (Assets rel) = Some a \<and>
        TagName rel \<noteq> ytdlpVersion s \<and>
        download_succeeds pl en (BrowserDownloadURL a))"

definition feed_up_to_date :: "env \<Rightarrow> state \<Rightarrow> bool" where
  "feed_up_to_date en s \<longleftrightarrow>
     (\<exists>resp rel. Get en feedURL = Inr resp \<and> jsonDecode en resp = Inr rel \<and>
        TagName rel = ytdlpVersion s)"

definition io_events :: "event list \<Rightarrow> event list" where
  "io_events tr = filter (\<lambda>e. case e of Log m \<Rightarrow> False | _ \<Rightarrow> True) tr"

lemma io_events_simps [simp]:
  "io_events [] = []"
  "io_events (tr @ tr') = io_events tr @ io_events tr'"
  "io_events (Log m # tr) = io_events tr"
  "io_events (HttpGet u # tr) = HttpGet u # io_events tr"
  by (simp_all add: io_events_def)

lemma not_download_succeeds:
  "\<not> download_succeeds pl en url \<Longrightarrow> \<exists>e. fst (downloadYtDlp pl en url s) = Inl e"
  using downloadYtDlp_Inr_iff [of pl en url s]
  by (cases "fst (downloadYtDlp pl en url s)") auto

lemma stage_fails_latest:
  assumes "update_stage_fails pl en"
  shows "(\<exists>e. fst (getLatestYtDlpRelease pl en s) = Inl e) \<or>
         (\<exists>tag url. fst (getLatestYtDlpRelease pl en s) = Inr (tag, url) \<and>
            \<not> download_succeeds pl en url)"
  using assms unfolding update_stage_fails_def
proof (elim disjE exE conjE)
  fix e assume "Get en feedURL = Inl e"
  then show ?thesis by (simp add: getLatest_Get_error)
next
  fix resp e assume "Get en feedURL = Inr resp" "jsonDecode en resp = Inl e"
  then show ?thesis by (simp add: getLatest_decode_error)
next
  fix resp rel
  assume "Get en feedURL = Inr resp" "jsonDecode en resp = Inr rel"
    "assetName pl \<notin> Name ` set (Assets rel)"
  then show ?thesis by (simp add: getLatest_not_found find_None_names)
next
  fix resp rel a e
  assume "Get en feedURL = Inr resp" "jsonDecode en resp = Inr rel"
    "find (\<lambda>a. Name a = assetName pl) (Assets rel) = Some a"
    "Get en (BrowserDownloadURL a) = Inl e"
  then show ?thesis by (simp add: getLatest_found download_succeeds_def)
next
  fix resp rel a e
  assume "Get en feedURL = Inr resp" "jsonDecode en resp = Inr rel"
    "find (\<lambda>a. Name a = assetName pl) (Assets rel) = Some a"
    "OpenErr en (download_tmpPath pl) = Some e"
  then show ?thesis by (simp add: getLatest_found download_succeeds_def)
next
  fix resp rel a dl e
  assume "Get en feedURL = Inr resp" "jsonDecode en resp = Inr rel"
    "find (\<lambda>a. Name a = assetName pl) (Assets rel) = Some a"
    "Get en (BrowserDownloadURL a) = Inr dl" "snd (io_Copy en (download_tmpPath pl) dl) = Some e"
  then show ?thesis by (simp add: getLatest_found download_succeeds_def)
next
  fix resp rel a e
  assume "Get en feedURL = Inr resp" "jsonDecode en resp = Inr rel"
    "find (\<lambda>a. Name a = assetName pl) (Assets rel) = Some a"
    "RenameErr en (download_tmpPath pl) (download_outPath pl) = Some e"
  then show ?thesis by (simp add: getLatest_found download_succeeds_def)
qed

text \<open>A cycle that does not install: the globals and every file but the temp file stay.\<close>

lemma checkAndUpdate_no_install:
  fixes pl en s
  defines "latest \<equiv> fst (getLatestYtDlpRelease pl en s)"
  assumes "(\<exists>e. latest = Inl e) \<or>
           (\<exists>tag url. latest = Inr (tag, url) \<and>
              (tag = ytdlpVersion s \<or> \<not> download_succeeds pl en url))"
  shows "ytdlpPath (checkAndUpdate pl en s) = ytdlpPath s"
    and "ytdlpVersion (checkAndUpdate pl en s) = ytdlpVersion s"
    and "p \<noteq> download_tmpPath pl \<Longrightarrow> files (checkAndUpdate pl en s) p = files s p"
proof -
  let ?s0 = "emit (Log ''checking for yt-dlp updates...'') s"
  have l: "fst (getLatestYtDlpRelease pl en ?s0) = latest"
    unfolding latest_def by (rule getLatest_fst_state)
  note u = checkAndUpdate_unfold [of pl en s, unfolded l]
  consider (err) e where "latest = Inl e"
    | (same) url where "latest = Inr (ytdlpVersion s, url)"
    | (dl) tag url where "latest = Inr (tag, url)" "tag \<noteq> ytdlpVersion s"
        "\<not> download_succeeds pl en url"
    using assms(2) by blast
  then have "ytdlpPath (checkAndUpdate pl en s) = ytdlpPath s \<and>
     ytdlpVersion (checkAndUpdate pl en s) = ytdlpVersion s \<and>
     (p \<noteq> download_tmpPath pl \<longrightarrow> files (checkAndUpdate pl en s) p = files s p)"
  proof cases
    case err then show ?thesis by (simp add: u)
  next
    case same then show ?thesis by (simp add: u)
  next
    case dl
    let ?s2 = "emit (Log (''updating yt-dlp '' @ ytdlpVersion s @ arrow @ tag))
                 (emit (HttpGet feedURL) ?s0)"
    obtain e where e: "fst (downloadYtDlp pl en url ?s2) = Inl e"
      using not_download_succeeds [OF dl(3)] by blast
    have "p \<noteq> download_tmpPath pl \<longrightarrow> files (snd (downloadYtDlp pl en url ?s2)) p = files s p"
      using downloadYtDlp_Inl_outPath [OF e] downloadYtDlp_other_files [of p pl en url ?s2]
      by (cases "p = download_outPath pl") auto
    then show ?thesis using dl(1,2) e by (simp add: u Let_def)
  qed
  then show "ytdlpPath (checkAndUpdate pl en s) = ytdlpPath s"
    and "ytdlpVersion (checkAndUpdate pl en s) = ytdlpVersion s"
    and "p \<noteq> download_tmpPath pl \<Longrightarrow> files (checkAndUpdate pl en s) p = files s p"
    by blast+
qed

lemma checkAndUpdate_install:
  assumes "Get en feedURL = Inr resp" "jsonDecode en resp = Inr rel"
    and "find (\<lambda>a. Name a = assetName pl) (Assets rel) = Some a"
    and "TagName rel \<noteq> ytdlpVersion s"
    and "download_succeeds pl en (BrowserDownloadURL a)"
  shows "ytdlpPath (checkAndUpdate pl en s) = download_outPath pl"
    and "ytdlpVersion (checkAndUpdate pl en s) = TagName rel"
    and "\<exists>dl. Get en (BrowserDownloadURL a) = Inr dl \<and>
           files (checkAndUpdate pl en s) (download_outPath pl) = Some (Body dl)"
proof -
  let ?s0 = "emit (Log ''checking for yt-dlp updates...'') s"
  let ?s2 = "emit (Log (''updating yt-dlp '' @ ytdlpVersion s @ arrow @ TagName rel))
               (emit (HttpGet feedURL) ?s0)"
  have l: "fst (getLatestYtDlpRelease pl en ?s0) = Inr (TagName rel, BrowserDownloadURL a)"
    using assms(1-3) by (rule getLatest_found)
  note u = checkAndUpdate_unfold [of pl en s, unfolded l]
  obtain np where np: "fst (downloadYtDlp pl en (BrowserDownloadURL a) ?s2) = Inr np"
    using downloadYtDlp_Inr_iff [of pl en "BrowserDownloadURL a" ?s2] assms(5) by blast
  have p: "np = download_outPath pl" using np by (rule downloadYtDlp_Inr_path)
  obtain dl where dl: "Get en (BrowserDownloadURL a) = Inr dl"
    using assms(5) by (auto simp: download_succeeds_def)
  show "ytdlpPath (checkAndUpdate pl en s) = download_outPath pl"
    using assms(4) np p by (simp add: u Let_def)
  show "ytdlpVersion (checkAndUpdate pl en s) = TagName rel"
    using assms(4) np p by (simp add: u Let_def)
  show "\<exists>dl. Get en (BrowserDownloadURL a) = Inr dl \<and>
           files (checkAndUpdate pl en s) (download_outPath pl) = Some (Body dl)"
    using assms(4) np p dl downloadYtDlp_Inr_content [OF dl np] by (simp add: u Let_def)
qed

lemma cycle_trichotomy:
  "update_stage_fails pl en \<or> feed_up_to_date en s \<or> update_installs pl en s"
proof (cases "Get en feedURL")
  case (Inl e)
  then show ?thesis by (auto simp: update_stage_fails_def)
next
  case (Inr resp)
  show ?thesis
  proof (cases "jsonDecode en resp")
    case (Inl e)
    with Inr show ?thesis by (auto simp: update_stage_fails_def)
  next
    case rel: (Inr rel)
    show ?thesis
    proof (cases "TagName rel = ytdlpVersion s")
      case True
      with Inr rel show ?thesis by (auto simp: feed_up_to_date_def)
    next
      case ne: False
      show ?thesis
      proof (cases "find (\<lambda>a. Name a = assetName pl) (Assets rel)")
        case None
        with Inr rel show ?thesis by (auto simp: update_stage_fails_def find_None_names)
      next
        case (Some a)
        show ?thesis
        proof (cases "download_succeeds pl en (BrowserDownloadURL a)")
          case True
          with Inr rel Some ne show ?thesis by (auto simp: update_installs_def)
        next
          case False
          have "update_stage_fails pl en"
            unfolding update_stage_fails_def
            apply (intro disjI2)
            apply (rule exI [of _ resp], rule exI [of _ rel], rule exI [of _ a])
            using False Inr rel Some
            apply (simp add: download_succeeds_def)
            apply (cases "Get en (BrowserDownloadURL a)")
             apply simp
            apply (cases "OpenErr en (download_tmpPath pl)")
             apply (cases "RenameErr en (download_tmpPath pl) (download_outPath pl)")
              apply auto
            done
          then show ?thesis by simp
        qed
      qed
    qed
  qed
qed


lemma up_to_date_latest:
  assumes "feed_up_to_date en s"
  shows "(\<exists>e. fst (getLatestYtDlpRelease pl en s') = Inl e) \<or>
         (\<exists>url. fst (getLatestYtDlpRelease pl en s') = Inr (ytdlpVersion s, url))"
proof -
  from assms obtain resp rel where f: "Get en feedURL = Inr resp" "jsonDecode en resp = Inr rel"
    "TagName rel = ytdlpVersion s" by (auto simp: feed_up_to_date_def)
  show ?thesis
    using f by (cases "find (\<lambda>a. Name a = assetName pl) (Assets rel)")
      (auto simp: getLatest_not_found getLatest_found)
qed

lemma checkAndUpdate_up_to_date:
  assumes "feed_up_to_date en s"
  shows "\<exists>m. checkAndUpdate pl en s =
           emit (Log m) (emit (HttpGet feedURL) (emit (Log ''checking for yt-dlp updates...'') s))"
  using up_to_date_latest [OF assms, of pl "emit (Log ''checking for yt-dlp updates...'') s"]
  by (auto simp: checkAndUpdate_unfold)

lemma checkAndUpdate_globals_cases:
  "(ytdlpPath (checkAndUpdate pl en s) = ytdlpPath s \<and>
    ytdlpVersion (checkAndUpdate pl en s) = ytdlpVersion s) \<or>
   (update_installs pl en s \<and> ytdlpPath (checkAndUpdate pl en s) = download_outPath pl \<and>
    (\<exists>resp rel. Get en feedURL = Inr resp \<and> jsonDecode en resp = Inr rel \<and>
       ytdlpVersion (checkAndUpdate pl en s) = TagName rel))"
  using cycle_trichotomy [of pl en s]
proof (elim disjE)
  assume "update_stage_fails pl en"
  from stage_fails_latest [OF this, of s] show ?thesis
    using checkAndUpdate_no_install(1,2) [of pl en s] by blast
next
  assume "feed_up_to_date en s"
  from up_to_date_latest [OF this, of pl s] show ?thesis
    using checkAndUpdate_no_install(1,2) [of pl en s] by blast
next
  assume i: "update_installs pl en s"
  then show ?thesis
    using checkAndUpdate_install(1,2) [of en _ _ pl _ s] unfolding update_installs_def by blast
qed

lemma autoUpdate_Nil [simp]: "autoUpdateYtDlp pl [] s = s"
  by (simp add: autoUpdateYtDlp_def)

lemma autoUpdate_Cons [simp]:
  "autoUpdateYtDlp pl (en # ens) s = autoUpdateYtDlp pl ens (checkAndUpdate pl en s)"
  by (simp add: autoUpdateYtDlp_def)

lemma autoUpdate_path_stays:
  "ytdlpPath s = download_outPath pl \<Longrightarrow> ytdlpPath (autoUpdateYtDlp pl ens s) = download_outPath pl"
proof (induction ens arbitrary: s)
  case Nil then show ?case by simp
next
  case (Cons en ens)
  have "ytdlpPath (checkAndUpdate pl en s) = download_outPath pl"
    using checkAndUpdate_globals_cases [of pl en s] Cons.prems by auto
  then show ?case using Cons.IH by simp
qed

lemma autoUpdate_version_nonempty:
  assumes "ytdlpVersion s \<noteq> []"
    and "\<forall>en\<in>set ens. \<forall>resp rel. Get en feedURL = Inr resp \<and> jsonDecode en resp = Inr rel
           \<longrightarrow> TagName rel \<noteq> []"
  shows "ytdlpVersion (autoUpdateYtDlp pl ens s) \<noteq> []"
  using assms
proof (induction ens arbitrary: s)
  case Nil then show ?case by simp
next
  case (Cons en ens)
  have "ytdlpVersion (checkAndUpdate pl en s) \<noteq> []"
    using checkAndUpdate_globals_cases [of pl en s] Cons.prems by auto
  moreover have "\<forall>en\<in>set ens. \<forall>resp rel. Get en feedURL = Inr resp \<and> jsonDecode en resp = Inr rel
           \<longrightarrow> TagName rel \<noteq> []"
    using Cons.prems(2) by auto
  ultimately show ?case using Cons.IH [of "checkAndUpdate pl en s"] by simp
qed

lemma main_start_Return:
  assumes "main_start pl en s0 = (Return (), s)"
  shows "ytdlpPath s = extract_outPath pl"
    and "ytdlpVersion s = getYtDlpVersion en (extract_outPath pl)"
proof -
  obtain r s1 where e: "extractYtDlp pl en s0 = (r, s1)" by (cases "extractYtDlp pl en s0")
  with assms obtain p where r: "r = Return p"
    by (cases r) (auto simp: main_start_def)
  have p: "p = extract_outPath pl" using extractYtDlp_Return [of pl en s0 p] e r by simp
  show "ytdlpPath s = extract_outPath pl"
    using assms e r p by (auto simp: main_start_def Let_def)
  show "ytdlpVersion s = getYtDlpVersion en (extract_outPath pl)"
    using assms e r p by (auto simp: main_start_def Let_def)
qed

lemma getYtDlpVersion_empty_iff:
  "getYtDlpVersion en bin = [] \<longleftrightarrow> (\<exists>out. Exec en bin [''--version''] = Inr out \<and> TrimSpace out = [])"
  by (auto simp: getYtDlpVersion_def split: sum.splits)


subsection \<open>More sample surroundings\<close>

definition installed_2024_01 :: state where
  "installed_2024_01 =
     \<lparr>ytdlpPath = mac_bin, ytdlpVersion = ''2024.01.01'',
      files = [mac_bin \<mapsto> ''old build''], trace = []\<rparr>"

definition rename_fails :: env where
  "rename_fails = online\<lparr>RenameErr := (\<lambda>a b. Some ''rename: permission denied'')\<rparr>"

definition same_version :: env where
  "same_version = online\<lparr>jsonDecode := (\<lambda>resp. Inr (feed_2024_02\<lparr>TagName := ''2024.01.01''\<rparr>))\<rparr>"

lemma mac_asset:
  "find (\<lambda>a. Name a = assetName mac) (Assets feed_2024_02)
     = Some \<lparr>Name = ''yt-dlp_macos'', BrowserDownloadURL = ''https://example/yt-dlp_macos''\<rparr>"
  by (simp add: feed_2024_02_def assetName_def mac_def)

lemma mac_tmp: "download_tmpPath mac = mac_bin @ ''.tmp''"
  by (simp add: download_tmpPath_def mac_paths)

lemma rename_fails_stage: "update_stage_fails mac rename_fails"
proof -
  have "Get rename_fails feedURL = Inr (ok_response ''{}'')"
    by (simp add: rename_fails_def online_def offline_def)
  moreover have "jsonDecode rename_fails (ok_response ''{}'') = Inr feed_2024_02"
    by (simp add: rename_fails_def online_def offline_def)
  moreover have "RenameErr rename_fails (download_tmpPath mac) (download_outPath mac)
      = Some ''rename: permission denied''"
    by (simp add: rename_fails_def online_def offline_def)
  ultimately show ?thesis
    unfolding update_stage_fails_def using mac_asset by blast
qed

lemma online_installs: "update_installs mac online installed_2024_01"
proof -
  have "Get online feedURL = Inr (ok_response ''{}'')"
    by (simp add: online_def offline_def)
  moreover have "jsonDecode online (ok_response ''{}'') = Inr feed_2024_02"
    by (simp add: online_def offline_def)
  moreover have "TagName feed_2024_02 \<noteq> ytdlpVersion installed_2024_01"
    by (simp add: feed_2024_02_def installed_2024_01_def)
  moreover have "download_succeeds mac online ''https://example/yt-dlp_macos''"
    by (simp add: download_succeeds_def online_def offline_def feedURL_def YTDLP_REPO_def
          io_Copy_def write_bytes_def ok_response_def)
  ultimately show ?thesis
    unfolding update_installs_def using mac_asset by fastforce
qed

lemma same_version_up_to_date: "feed_up_to_date same_version installed_2024_01"
proof -
  have "Get same_version feedURL = Inr (ok_response ''{}'')"
    by (simp add: same_version_def online_def offline_def)
  moreover have "jsonDecode same_version (ok_response ''{}'')
      = Inr (feed_2024_02\<lparr>TagName := ''2024.01.01''\<rparr>)"
    by (simp add: same_version_def online_def offline_def)
  ultimately show ?thesis
    unfolding feed_up_to_date_def by (simp add: installed_2024_01_def)
qed

section \<open>Claims about the updater\<close>

text \<open>
  C1. If a stage of an update cycle fails (the release-feed request, the decoding of the
  metadata or the asset lookup, the asset download, the creation of or the write to the
  temp file, or the rename), \<^verbatim>\<open>checkAndUpdate\<close> returns with \<^verbatim>\<open>ytdlpPath\<close> and
  \<^verbatim>\<open>ytdlpVersion\<close> as they were; no file but the temp file has changed; the loop goes on
  to its next tick from that state; and \<^verbatim>\<open>/ping\<close> and \<^verbatim>\<open>/audio\<close> answer as before.
  (\<^verbatim>\<open>checkAndUpdate\<close> has no exit and no panic: its model returns a state.)
\<close>

theorem failed_update_keeps_binary:
  assumes "update_stage_fails pl en"
  shows "ytdlpPath (checkAndUpdate pl en s) = ytdlpPath s \<and>
         ytdlpVersion (checkAndUpdate pl en s) = ytdlpVersion s \<and>
         (\<forall>p. p \<noteq> download_tmpPath pl \<longrightarrow> files (checkAndUpdate pl en s) p = files s p) \<and>
         ping (checkAndUpdate pl en s) = ping s \<and>
         (\<forall>en' r. audio en' r (checkAndUpdate pl en s) = audio en' r s) \<and>
         (\<forall>ens. autoUpdateYtDlp pl (en # ens) s = autoUpdateYtDlp pl ens (checkAndUpdate pl en s))"
proof -
  note n = checkAndUpdate_no_install [of pl en s]
  have c: "(\<exists>e. fst (getLatestYtDlpRelease pl en s) = Inl e) \<or>
        (\<exists>tag url. fst (getLatestYtDlpRelease pl en s) = Inr (tag, url) \<and>
           (tag = ytdlpVersion s \<or> \<not> download_succeeds pl en url))"
    using stage_fails_latest [OF assms, of s] by blast
  have p: "ytdlpPath (checkAndUpdate pl en s) = ytdlpPath s" by (rule n(1) [OF c])
  have v: "ytdlpVersion (checkAndUpdate pl en s) = ytdlpVersion s" by (rule n(2) [OF c])
  have f: "\<forall>p. p \<noteq> download_tmpPath pl \<longrightarrow> files (checkAndUpdate pl en s) p = files s p"
    using n(3) [OF c] by blast
  show ?thesis using p v f by (simp add: ping_def audio_def)
qed

theorem failed_update_keeps_binary_witness:
  "update_stage_fails mac rename_fails \<and>
   ytdlpPath (checkAndUpdate mac rename_fails installed_2024_01) = mac_bin \<and>
   ytdlpVersion (checkAndUpdate mac rename_fails installed_2024_01) = ''2024.01.01'' \<and>
   files (checkAndUpdate mac rename_fails installed_2024_01) mac_bin = Some ''old build''"
proof -
  have "mac_bin \<noteq> download_tmpPath mac" by (simp add: mac_tmp)
  then show ?thesis
    using failed_update_keeps_binary [OF rename_fails_stage, of installed_2024_01] rename_fails_stage
    by (simp add: installed_2024_01_def)
qed

text \<open>
  C6. When the release feed reports the version that \<^verbatim>\<open>ytdlpVersion\<close> already holds,
  \<^verbatim>\<open>checkAndUpdate\<close> makes the feed request and nothing else: no download, no file
  operation, and path, version and files are as before. Running the cycle twice under
  such a feed therefore changes nothing either.
\<close>

theorem up_to_date_cycle_is_noop:
  assumes "feed_up_to_date en s"
  shows "ytdlpPath (checkAndUpdate pl en s) = ytdlpPath s \<and>
         ytdlpVersion (checkAndUpdate pl en s) = ytdlpVersion s \<and>
         files (checkAndUpdate pl en s) = files s \<and>
         io_events (trace (checkAndUpdate pl en s)) = io_events (trace s) @ [HttpGet feedURL] \<and>
         ytdlpPath (checkAndUpdate pl en (checkAndUpdate pl en s)) = ytdlpPath s \<and>
         ytdlpVersion (checkAndUpdate pl en (checkAndUpdate pl en s)) = ytdlpVersion s \<and>
         files (checkAndUpdate pl en (checkAndUpdate pl en s)) = files s \<and>
         io_events (trace (checkAndUpdate pl en (checkAndUpdate pl en s)))
           = io_events (trace s) @ [HttpGet feedURL, HttpGet feedURL]"
proof -
  obtain m where m: "checkAndUpdate pl en s =
      emit (Log m) (emit (HttpGet feedURL) (emit (Log ''checking for yt-dlp updates...'') s))"
    using checkAndUpdate_up_to_date [OF assms] by blast
  let ?s' = "checkAndUpdate pl en s"
  have "feed_up_to_date en ?s'"
    using assms by (simp add: feed_up_to_date_def m)
  then obtain m' where m': "checkAndUpdate pl en ?s' =
      emit (Log m') (emit (HttpGet feedURL) (emit (Log ''checking for yt-dlp updates...'') ?s'))"
    using checkAndUpdate_up_to_date by blast
  show ?thesis
    by (simp add: m' [unfolded m] m)
qed

theorem up_to_date_cycle_is_noop_witness:
  "feed_up_to_date same_version installed_2024_01 \<and>
   ytdlpPath (checkAndUpdate mac same_version installed_2024_01) = mac_bin \<and>
   ytdlpVersion (checkAndUpdate mac same_version installed_2024_01) = ''2024.01.01'' \<and>
   files (checkAndUpdate mac same_version installed_2024_01) = [mac_bin \<mapsto> ''old build''] \<and>
   io_events (trace (checkAndUpdate mac same_version installed_2024_01)) = [HttpGet feedURL] \<and>
   files (checkAndUpdate mac same_version (checkAndUpdate mac same_version installed_2024_01))
     = [mac_bin \<mapsto> ''old build'']"
  using up_to_date_cycle_is_noop [OF same_version_up_to_date, of mac] same_version_up_to_date
  by (simp add: installed_2024_01_def)


definition versioned :: env where
  "versioned = offline\<lparr>Exec := (\<lambda>bin args. Inr ''2024.01.01\<newline>'')\<rparr>"

definition silent :: env where
  "silent = offline\<lparr>Exec := (\<lambda>bin args. Inr [])\<rparr>"

definition untagged :: env where
  "untagged = online\<lparr>jsonDecode := (\<lambda>resp. Inr (feed_2024_02\<lparr>TagName := []\<rparr>))\<rparr>"

lemma main_start_mac:
  "main_start mac en (init_state [mac_bin \<mapsto> b]) =
     (Return (),
      \<lparr>ytdlpPath = mac_bin, ytdlpVersion = getYtDlpVersion en mac_bin,
       files = [mac_bin \<mapsto> b],
       trace = [MkdirAll ''/Users/u/Library/Application Support/tatatext-helper'', Stat mac_bin,
                Log (''yt-dlp version: '' @ getYtDlpVersion en mac_bin)]\<rparr>)"
proof -
  have "\<not> stat_IsNotExist en
          (emit (Stat (extract_outPath mac)) (emit (MkdirAll (extract_dir mac))
             (init_state [mac_bin \<mapsto> b]))) (extract_outPath mac)"
    by (simp add: stat_IsNotExist_def init_state_def mac_paths)
  from extractYtDlp_exists [OF this] show ?thesis
    by (simp add: main_start_def Let_def mac_paths init_state_def emit_def)
qed

lemma versioned_version: "getYtDlpVersion versioned mac_bin = ''2024.01.01''"
  by (simp add: getYtDlpVersion_def versioned_def offline_def strings_eval)

lemma silent_version: "getYtDlpVersion silent mac_bin = []"
  by (simp add: getYtDlpVersion_def silent_def offline_def strings_eval)

lemma checkAndUpdate_install_tag:
  assumes "update_installs pl en s"
  shows "\<exists>resp rel. Get en feedURL = Inr resp \<and> jsonDecode en resp = Inr rel \<and>
           ytdlpVersion (checkAndUpdate pl en s) = TagName rel"
  using assms checkAndUpdate_install(2) [of en _ _ pl _ s] unfolding update_installs_def by blast

text \<open>
  C2, as the code has it. After start-up \<^verbatim>\<open>ytdlpPath\<close> is the target path and
  \<^verbatim>\<open>ytdlpVersion\<close> is what the version probe printed, trimmed, or \<^verbatim>\<open>unknown\<close> when the
  probe failed: so it is empty exactly when the probe succeeded and printed only white
  space. From a state with a non-empty version, the version stays non-empty through
  any number of update cycles whose feeds carry a non-empty tag. And once
  \<^verbatim>\<open>checkAndUpdate\<close> has installed a release, \<^verbatim>\<open>ytdlpVersion\<close> is the tag of the release
  the feed announced, and every later read of \<^verbatim>\<open>ytdlpPath\<close>, after any number of further
  cycles, gives the installed path.
\<close>

theorem snapshot_invariant:
  "(main_start pl en0 s0 = (Return (), s) \<longrightarrow>
      ytdlpPath s = extract_outPath pl \<and>
      ytdlpVersion s =
        (case Exec en0 (extract_outPath pl) [''--version''] of
           Inl err \<Rightarrow> ''unknown''
         | Inr out \<Rightarrow> TrimSpace out) \<and>
      (ytdlpVersion s = [] \<longleftrightarrow>
         (\<exists>out. Exec en0 (extract_outPath pl) [''--version''] = Inr out \<and> TrimSpace out = []))) \<and>
   (ytdlpVersion s \<noteq> [] \<and>
    (\<forall>en\<in>set ens. \<forall>resp rel. Get en feedURL = Inr resp \<and> jsonDecode en resp = Inr rel
        \<longrightarrow> TagName rel \<noteq> []) \<longrightarrow>
      ytdlpVersion (autoUpdateYtDlp pl ens s) \<noteq> []) \<and>
   (update_installs pl en s \<longrightarrow>
      ytdlpPath (checkAndUpdate pl en s) = download_outPath pl \<and>
      (\<exists>resp rel. Get en feedURL = Inr resp \<and> jsonDecode en resp = Inr rel \<and>
         ytdlpVersion (checkAndUpdate pl en s) = TagName rel) \<and>
      (\<forall>ens'. ytdlpPath (autoUpdateYtDlp pl ens' (checkAndUpdate pl en s)) = download_outPath pl))"
proof (intro conjI impI)
  assume m: "main_start pl en0 s0 = (Return (), s)"
  show "ytdlpPath s = extract_outPath pl" by (rule main_start_Return(1) [OF m])
  show "ytdlpVersion s =
        (case Exec en0 (extract_outPath pl) [''--version''] of
           Inl err \<Rightarrow> ''unknown''
         | Inr out \<Rightarrow> TrimSpace out)"
    by (simp add: main_start_Return(2) [OF m] getYtDlpVersion_def)
  show "ytdlpVersion s = [] \<longleftrightarrow>
         (\<exists>out. Exec en0 (extract_outPath pl) [''--version''] = Inr out \<and> TrimSpace out = [])"
    by (simp add: main_start_Return(2) [OF m] getYtDlpVersion_empty_iff)
next
  assume "ytdlpVersion s \<noteq> [] \<and>
    (\<forall>en\<in>set ens. \<forall>resp rel. Get en feedURL = Inr resp \<and> jsonDecode en resp = Inr rel
        \<longrightarrow> TagName rel \<noteq> [])"
  then show "ytdlpVersion (autoUpdateYtDlp pl ens s) \<noteq> []"
    using autoUpdate_version_nonempty [of s ens pl] by blast
next
  assume i: "update_installs pl en s"
  then show p: "ytdlpPath (checkAndUpdate pl en s) = download_outPath pl"
    using checkAndUpdate_install(1) [of en _ _ pl _ s] unfolding update_installs_def by blast
  show "\<exists>resp rel. Get en feedURL = Inr resp \<and> jsonDecode en resp = Inr rel \<and>
         ytdlpVersion (checkAndUpdate pl en s) = TagName rel"
    using i by (rule checkAndUpdate_install_tag)
  show "\<forall>ens'. ytdlpPath (autoUpdateYtDlp pl ens' (checkAndUpdate pl en s)) = download_outPath pl"
    using autoUpdate_path_stays [OF p] by blast
qed

theorem snapshot_invariant_witness:
  "fst (main_start mac versioned (init_state [mac_bin \<mapsto> ''old build''])) = Return () \<and>
   Exec versioned mac_bin [''--version''] = Inr ''2024.01.01\<newline>'' \<and>
   ytdlpPath (snd (main_start mac versioned (init_state [mac_bin \<mapsto> ''old build'']))) = mac_bin \<and>
   ytdlpVersion (snd (main_start mac versioned (init_state [mac_bin \<mapsto> ''old build''])))
     = ''2024.01.01'' \<and>
   ytdlpVersion (snd (main_start mac offline (init_state [mac_bin \<mapsto> ''old build''])))
     = ''unknown'' \<and>
   ytdlpVersion (autoUpdateYtDlp mac [offline, online] installed_2024_01) \<noteq> [] \<and>
   update_installs mac online installed_2024_01 \<and>
   ytdlpVersion (checkAndUpdate mac online installed_2024_01) = ''2024.02.01'' \<and>
   ytdlpPath (autoUpdateYtDlp mac [offline, rename_fails]
                (checkAndUpdate mac online installed_2024_01)) = mac_bin"
proof -
  let ?s = "snd (main_start mac versioned (init_state [mac_bin \<mapsto> ''old build'']))"
  let ?u = "snd (main_start mac offline (init_state [mac_bin \<mapsto> ''old build'']))"
  have m: "main_start mac versioned (init_state [mac_bin \<mapsto> ''old build'']) = (Return (), ?s)"
    by (simp add: main_start_mac)
  have mu: "main_start mac offline (init_state [mac_bin \<mapsto> ''old build'']) = (Return (), ?u)"
    by (simp add: main_start_mac)
  have x: "Exec versioned mac_bin [''--version''] = Inr ''2024.01.01\<newline>''"
    by (simp add: versioned_def offline_def)
  have xu: "Exec offline mac_bin [''--version''] = Inl ''exit status 1''"
    by (simp add: offline_def)
  have tr: "TrimSpace ''2024.01.01\<newline>'' = ''2024.01.01''" by (simp add: strings_eval)
  have t: "\<forall>en\<in>set [offline, online]. \<forall>resp rel.
      Get en feedURL = Inr resp \<and> jsonDecode en resp = Inr rel \<longrightarrow> TagName rel \<noteq> []"
    by (simp add: offline_def online_def feed_2024_02_def)
  have n: "ytdlpVersion installed_2024_01 \<noteq> []" by (simp add: installed_2024_01_def)
  have j: "\<And>resp. jsonDecode online resp = Inr feed_2024_02" by (simp add: online_def offline_def)
  note T1 = snapshot_invariant [of mac versioned "init_state [mac_bin \<mapsto> ''old build'']" ?s
        "[offline, online]" online]
  note T2 = snapshot_invariant [of mac versioned "init_state [mac_bin \<mapsto> ''old build'']" installed_2024_01
        "[offline, online]" online]
  note T3 = snapshot_invariant [of mac offline "init_state [mac_bin \<mapsto> ''old build'']" ?u
        "[offline, online]" online]
  have 1: "ytdlpPath ?s = extract_outPath mac" using T1 m by blast
  have "ytdlpVersion ?s =
        (case Exec versioned (extract_outPath mac) [''--version''] of
           Inl err \<Rightarrow> ''unknown'' | Inr out \<Rightarrow> TrimSpace out)"
    using T1 m by blast
  then have v: "ytdlpVersion ?s = ''2024.01.01''" by (simp add: mac_paths x tr)
  have "ytdlpVersion ?u =
        (case Exec offline (extract_outPath mac) [''--version''] of
           Inl err \<Rightarrow> ''unknown'' | Inr out \<Rightarrow> TrimSpace out)"
    using T3 mu by blast
  then have vu: "ytdlpVersion ?u = ''unknown''" by (simp add: mac_paths xu)
  have 2: "ytdlpVersion (autoUpdateYtDlp mac [offline, online] installed_2024_01) \<noteq> []"
    using T2 n t by blast
  have 3: "ytdlpPath (autoUpdateYtDlp mac [offline, rename_fails]
                (checkAndUpdate mac online installed_2024_01)) = download_outPath mac"
    using T2 online_installs by blast
  have "\<exists>resp rel. Get online feedURL = Inr resp \<and> jsonDecode online resp = Inr rel \<and>
         ytdlpVersion (checkAndUpdate mac online installed_2024_01) = TagName rel"
    using T2 online_installs by blast
  then have 4: "ytdlpVersion (checkAndUpdate mac online installed_2024_01) = ''2024.02.01''"
    using j by (auto simp: feed_2024_02_def)
  show ?thesis
    using 1 2 3 4 v vu x online_installs by (simp add: mac_paths main_start_mac)
qed

text \<open>
  C2 as stated fails. A binary at the target path that answers \<^verbatim>\<open>--version\<close> with
  exit status 0 and no output leaves, after start-up, a non-empty path with an empty
  version. So does a release whose tag is the empty string: the cycle installs it.
\<close>

theorem snapshot_invariant_counterexample:
  "fst (main_start mac silent (init_state [mac_bin \<mapsto> ''old build''])) = Return () \<and>
   ytdlpPath (snd (main_start mac silent (init_state [mac_bin \<mapsto> ''old build''])))
     = ''/Users/u/Library/Application Support/tatatext-helper/yt-dlp'' \<and>
   ytdlpVersion (snd (main_start mac silent (init_state [mac_bin \<mapsto> ''old build'']))) = [] \<and>
   ytdlpPath (checkAndUpdate mac untagged installed_2024_01)
     = ''/Users/u/Library/Application Support/tatatext-helper/yt-dlp'' \<and>
   ytdlpVersion (checkAndUpdate mac untagged installed_2024_01) = []"
proof -
  have g: "Get untagged feedURL = Inr (ok_response ''{}'')"
    by (simp add: untagged_def online_def offline_def)
  have d: "jsonDecode untagged (ok_response ''{}'') = Inr (feed_2024_02\<lparr>TagName := []\<rparr>)"
    by (simp add: untagged_def online_def offline_def)
  have a: "find (\<lambda>a. Name a = assetName mac) (Assets (feed_2024_02\<lparr>TagName := []\<rparr>))
     = Some \<lparr>Name = ''yt-dlp_macos'', BrowserDownloadURL = ''https://example/yt-dlp_macos''\<rparr>"
    using mac_asset by simp
  have t: "TagName (feed_2024_02\<lparr>TagName := []\<rparr>) \<noteq> ytdlpVersion installed_2024_01"
    by (simp add: installed_2024_01_def)
  have s: "download_succeeds mac untagged
      (BrowserDownloadURL \<lparr>Name = ''yt-dlp_macos'', BrowserDownloadURL = ''https://example/yt-dlp_macos''\<rparr>)"
    by (simp add: download_succeeds_def untagged_def online_def offline_def feedURL_def
          YTDLP_REPO_def io_Copy_def write_bytes_def ok_response_def)
  note i = checkAndUpdate_install [OF g d a t s]
  show ?thesis
    using i(1,2) by (simp add: main_start_mac silent_version mac_paths) (simp add: mac_bin_def)
qed


section \<open>Claims about the /audio handler\<close>

lemma audio_after_exec:
  assumes "Method r \<noteq> ''OPTIONS''" and "query_url r \<noteq> []"
    and "Exec en (ytdlpPath s) (audio_args (query_url r)) = Inr out"
  shows "audio en r s =
    (if no_audio_url (audio_lines out)
     then Responded (http_Error (json_header cors) ''{\"error\":\"no audio URL found\"}'' 500)
     else audio_proxy en (audio_title (audio_lines out)) (TrimSpace (audio_lines out ! 1)))"
  using assms by (simp add: audio_def Let_def)

lemma audio_lines_no_newline:
  assumes "CHR ''\<newline>'' \<notin> set (TrimSpace out)"
  shows "audio_lines out = [TrimSpace out]"
proof -
  have "Index (TrimSpace out) ''\<newline>'' = None"
    using assms by (simp add: Index_newline_None)
  then show ?thesis
    by (cases "min 2 (length (TrimSpace out) + 1) - 1") (simp_all add: audio_lines_def SplitN_def)
qed

lemma audio_lines_newline:
  assumes "CHR ''\<newline>'' \<in> set (TrimSpace out)"
  shows "\<exists>a b. audio_lines out = [a, b] \<and> b \<noteq> [] \<and> TrimSpace out = a @ ''\<newline>'' @ b"
proof -
  let ?u = "TrimSpace out"
  have ne: "?u \<noteq> []" using assms by auto
  obtain m where m: "Index ?u ''\<newline>'' = Some m"
    using assms Index_newline_None [of ?u "CHR ''\<newline>''"] by (cases "Index ?u ''\<newline>''") auto
  note M = Index_single_Some [OF m]
  have fuel: "min (Suc 0) (length ?u) = Suc 0" using ne by (cases ?u) auto
  have l: "audio_lines out = [take m ?u, drop (m + 1) ?u]"
    by (simp add: audio_lines_def SplitN_def fuel m)
  have "drop (m + 1) ?u \<noteq> []"
  proof
    assume "drop (m + 1) ?u = []"
    then have "m = length ?u - 1" using M by auto
    then have "last ?u = CHR ''\<newline>''" using M ne by (simp add: last_conv_nth)
    then show False using TrimSpace_last_not_newline [OF ne] by simp
  qed
  moreover have "?u = take m ?u @ ''\<newline>'' @ drop (m + 1) ?u"
  proof -
    have "?u = take m ?u @ ?u ! m # drop (Suc m) ?u"
      using M by (intro id_take_nth_drop) simp
    moreover have "?u ! m # drop (Suc m) ?u = ''\<newline>'' @ drop (m + 1) ?u"
      using M by simp
    ultimately show ?thesis by metis
  qed
  ultimately show ?thesis using l by blast
qed

lemma audio_proxy_not_no_audio:
  "audio_proxy en title u \<noteq>
     Responded (http_Error (json_header cors) ''{\"error\":\"no audio URL found\"}'' 500)"
  by (simp add: audio_proxy_def http_Error_def Let_def split: option.splits sum.splits)

definition sample_output :: string where
  "sample_output = ''My Title\<newline>https://example/media.m4a''"

lemma sample_lines: "audio_lines sample_output = [''My Title'', ''https://example/media.m4a'']"
  by (simp add: audio_lines_def sample_output_def strings_eval)

lemma TrimSpace_sample_url: "TrimSpace ''https://example/media.m4a'' = ''https://example/media.m4a''"
  by (simp add: strings_eval)

lemma TrimSpace_Nil: "TrimSpace [] = []"
  by (simp add: strings_eval)

text \<open>
  C3, as the code has it. For a request that reaches the subprocess and whose subprocess
  succeeds with output \<open>out\<close>: on the output \<^verbatim>\<open>"My Title\nhttps://example/media.m4a"\<close> the
  handler goes on to proxy \<^verbatim>\<open>https://example/media.m4a\<close> with the title \<^verbatim>\<open>My Title\<close>;
  it answers status 500 with the error \<^verbatim>\<open>no audio URL found\<close> exactly when the output,
  trimmed of surrounding white space, has no line break (no second line is left), which
  is the case for every output made of one line followed only by line breaks and other
  ASCII white space; on the empty output the title is the placeholder
  \<^verbatim>\<open>YouTube Video\<close> and the answer is that error.
  (The text after the first line break of the trimmed output is taken whole as the URL
  field, so an empty second line followed by more text is not an error.)
\<close>

theorem audio_output_parsing:
  assumes "Method r \<noteq> ''OPTIONS''" and "query_url r \<noteq> []"
    and "Exec en (ytdlpPath s) (audio_args (query_url r)) = Inr out"
  shows "(out = ''My Title\<newline>https://example/media.m4a'' \<longrightarrow>
            audio_title (audio_lines out) = ''My Title'' \<and>
            audio en r s = audio_proxy en ''My Title'' ''https://example/media.m4a'') \<and>
         (audio en r s =
              Responded (http_Error (json_header cors) ''{\"error\":\"no audio URL found\"}'' 500)
            \<longleftrightarrow> CHR ''\<newline>'' \<notin> set (TrimSpace out)) \<and>
         (\<forall>t w. out = t @ ''\<newline>'' @ w \<and> CHR ''\<newline>'' \<notin> set t \<and> (\<forall>c\<in>set w. asciiSpace c) \<longrightarrow>
            audio en r s =
              Responded (http_Error (json_header cors) ''{\"error\":\"no audio URL found\"}'' 500)) \<and>
         (out = [] \<longrightarrow>
            audio_title (audio_lines out) = ''YouTube Video'' \<and>
            audio en r s =
              Responded (http_Error (json_header cors) ''{\"error\":\"no audio URL found\"}'' 500))"
proof -
  note a = audio_after_exec [OF assms]
  let ?err = "Responded (http_Error (json_header cors) ''{\"error\":\"no audio URL found\"}'' 500)"
  have none: "audio en r s = ?err" if "CHR ''\<newline>'' \<notin> set (TrimSpace out)"
    using that by (simp add: a audio_lines_no_newline no_audio_url_def)
  have some: "audio en r s \<noteq> ?err" if "CHR ''\<newline>'' \<in> set (TrimSpace out)"
  proof -
    from audio_lines_newline [OF that] obtain x y where "audio_lines out = [x, y]" "y \<noteq> []"
      by blast
    then show ?thesis by (simp add: a no_audio_url_def audio_proxy_not_no_audio)
  qed
  have 1: "out = ''My Title\<newline>https://example/media.m4a'' \<longrightarrow>
            audio_title (audio_lines out) = ''My Title'' \<and>
            audio en r s = audio_proxy en ''My Title'' ''https://example/media.m4a''"
  proof
    assume o: "out = ''My Title\<newline>https://example/media.m4a''"
    have l: "audio_lines out = [''My Title'', ''https://example/media.m4a'']"
      using sample_lines by (simp add: o sample_output_def)
    show "audio_title (audio_lines out) = ''My Title'' \<and>
            audio en r s = audio_proxy en ''My Title'' ''https://example/media.m4a''"
      by (simp add: a l audio_title_def no_audio_url_def TrimSpace_sample_url)
  qed
  have 2: "audio en r s = ?err \<longleftrightarrow> CHR ''\<newline>'' \<notin> set (TrimSpace out)"
    using none some by blast
  have 3: "\<forall>t w. out = t @ ''\<newline>'' @ w \<and> CHR ''\<newline>'' \<notin> set t \<and> (\<forall>c\<in>set w. asciiSpace c)
             \<longrightarrow> audio en r s = ?err"
    using TrimSpace_title_only none by blast
  have 4: "out = [] \<longrightarrow> audio_title (audio_lines out) = ''YouTube Video'' \<and> audio en r s = ?err"
  proof
    assume o: "out = []"
    have l: "audio_lines out = [[]]"
      using audio_lines_no_newline [of "[]"] by (simp add: o TrimSpace_Nil)
    show "audio_title (audio_lines out) = ''YouTube Video'' \<and> audio en r s = ?err"
      by (simp add: a l audio_title_def no_audio_url_def)
  qed
  show ?thesis using 1 2 3 4 by blast
qed

definition get_request :: request where
  "get_request = \<lparr>Method = ''GET'', query_url = ''https://youtu.be/abc''\<rparr>"

definition prints :: "string \<Rightarrow> env" where
  "prints out = offline\<lparr>Exec := (\<lambda>bin args. Inr out)\<rparr>"

theorem audio_output_parsing_witness:
  "Method get_request \<noteq> ''OPTIONS'' \<and> query_url get_request \<noteq> [] \<and>
   audio (prints ''My Title\<newline>https://example/media.m4a'') get_request installed_2024_01
     = audio_proxy (prints ''My Title\<newline>https://example/media.m4a'')
         ''My Title'' ''https://example/media.m4a'' \<and>
   CHR ''\<newline>'' \<notin> set ''My Title'' \<and> asciiSpace CHR '' '' \<and> asciiSpace CHR ''\<newline>'' \<and>
   audio (prints ''My Title\<newline> \<newline>'') get_request installed_2024_01
     = Responded (http_Error (json_header cors) ''{\"error\":\"no audio URL found\"}'' 500) \<and>
   audio (prints []) get_request installed_2024_01
     = Responded (http_Error (json_header cors) ''{\"error\":\"no audio URL found\"}'' 500)"
proof -
  have m: "Method get_request \<noteq> ''OPTIONS''" and q: "query_url get_request \<noteq> []"
    by (simp_all add: get_request_def)
  have e: "\<And>out. Exec (prints out) (ytdlpPath installed_2024_01) (audio_args (query_url get_request))
      = Inr out"
    by (simp add: prints_def offline_def)
  have sp: "asciiSpace CHR '' ''" "asciiSpace CHR ''\<newline>''" by (simp_all add: asciiSpace_def)
  note T = audio_output_parsing [OF m q e [of "''My Title\<newline> \<newline>''"]]
  have "''My Title\<newline> \<newline>'' = ''My Title'' @ ''\<newline>'' @ '' \<newline>'' \<and>
        CHR ''\<newline>'' \<notin> set ''My Title'' \<and> (\<forall>c\<in>set '' \<newline>''. asciiSpace c)"
    using sp by simp
  with T have t: "audio (prints ''My Title\<newline> \<newline>'') get_request installed_2024_01
     = Responded (http_Error (json_header cors) ''{\"error\":\"no audio URL found\"}'' 500)"
    by blast
  show ?thesis
    using audio_output_parsing [OF m q e [of "''My Title\<newline>https://example/media.m4a''"]]
      audio_output_parsing [OF m q e [of "[]"]] m q t sp
    by simp
qed

text \<open>
  C3 as stated fails on its second part. The output \<^verbatim>\<open>"T\n\nX"\<close> has the lines \<^verbatim>\<open>T\<close>,
  the empty line and \<^verbatim>\<open>X\<close>: its second line is empty, but the handler does not answer
  \<^verbatim>\<open>no audio URL found\<close>; it goes on to proxy \<^verbatim>\<open>X\<close> with the title \<^verbatim>\<open>T\<close>.
\<close>

theorem audio_empty_second_line_counterexample:
  "SplitN ''T\<newline>\<newline>X'' ''\<newline>'' 3 = [''T'', [], ''X''] \<and>
   SplitN ''T\<newline>\<newline>X'' ''\<newline>'' 3 ! 1 = [] \<and>
   audio_lines ''T\<newline>\<newline>X'' = [''T'', ''\<newline>X''] \<and>
   audio (prints ''T\<newline>\<newline>X'') get_request installed_2024_01
     = audio_proxy (prints ''T\<newline>\<newline>X'') ''T'' ''X'' \<and>
   audio (prints ''T\<newline>\<newline>X'') get_request installed_2024_01
     \<noteq> Responded (http_Error (json_header cors) ''{\"error\":\"no audio URL found\"}'' 500)"
proof -
  have l: "audio_lines ''T\<newline>\<newline>X'' = [''T'', ''\<newline>X'']"
    by (simp add: audio_lines_def strings_eval)
  have t: "TrimSpace ''\<newline>X'' = ''X''" by (simp add: strings_eval)
  have a: "audio (prints ''T\<newline>\<newline>X'') get_request installed_2024_01
     = audio_proxy (prints ''T\<newline>\<newline>X'') ''T'' ''X''"
    by (simp add: audio_def Let_def get_request_def prints_def offline_def l t
          audio_title_def no_audio_url_def)
  have p: "audio_proxy (prints ''T\<newline>\<newline>X'') ''T'' ''X''
     \<noteq> Responded (http_Error (json_header cors) ''{\"error\":\"no audio URL found\"}'' 500)"
    by (simp add: audio_proxy_def prints_def offline_def http_Error_def)
  have s: "SplitN ''T\<newline>\<newline>X'' ''\<newline>'' 3 = [''T'', [], ''X'']"
    by (simp add: strings_eval eval_nat_numeral)
  show ?thesis using l a p s by simp
qed

definition spec_ext :: "string \<Rightarrow> string" where
  "spec_ext ct =
     (if (\<exists>p q. ct = p @ ''webm'' @ q) \<or> (\<exists>p q. ct = p @ ''ogg'' @ q) then ''webm'' else ''m4a'')"

lemma audio_ext_spec: "audio_ext ct = spec_ext ct"
  by (simp add: audio_ext_def spec_ext_def Contains_iff)

lemma audio_ext_default: "audio_ext ''audio/mp4'' = spec_ext []"
  by (simp add: audio_ext_def spec_ext_def strings_eval)

lemma audio_proxy_extension:
  assumes "NewRequestErr en u = None" and "Do en u = Inr resp"
  shows "\<exists>rsp. audio_proxy en title u = Responded rsp \<and>
           headers rsp ''X-Video-Extension'' = Some (spec_ext (Header_Get resp ''Content-Type'')) \<and>
           headers rsp ''Content-Disposition'' =
             Some (''attachment; filename=\"'' @ sanitizeFilename title @ ''.''
                     @ spec_ext (Header_Get resp ''Content-Type'') @ ''\"'')"
proof (cases "Header_Get resp ''Content-Type'' = []")
  case True
  then show ?thesis
    using assms by (simp add: audio_proxy_def Let_def audio_ext_default)
next
  case False
  then show ?thesis
    using assms by (simp add: audio_proxy_def Let_def audio_ext_spec)
qed

text \<open>
  C7. A request to \<^verbatim>\<open>/audio\<close> that is not a preflight, names a video, and whose subprocess
  prints a title line and an address line, and whose upstream request is answered, gets the
  status 200 and the extension derived from the upstream \<^verbatim>\<open>Content-Type\<close> value: \<^verbatim>\<open>webm\<close>
  if that value has \<^verbatim>\<open>webm\<close> or \<^verbatim>\<open>ogg\<close> as a substring and \<^verbatim>\<open>m4a\<close> otherwise (also when
  the header is absent or empty). The extension is the value of \<^verbatim>\<open>X-Video-Extension\<close> and
  the extension of the file name in \<^verbatim>\<open>Content-Disposition\<close>.
\<close>

theorem audio_extension_from_content_type:
  assumes "Method r \<noteq> ''OPTIONS''" and "query_url r \<noteq> []"
    and "Exec en (ytdlpPath s) (audio_args (query_url r)) = Inr out"
    and "CHR ''\<newline>'' \<in> set (TrimSpace out)"
    and "NewRequestErr en (TrimSpace (audio_lines out ! 1)) = None"
    and "Do en (TrimSpace (audio_lines out ! 1)) = Inr resp"
  shows "\<exists>rsp. audio en r s = Responded rsp \<and>
           status rsp = 200 \<and>
           headers rsp ''X-Video-Extension'' = Some (spec_ext (Header_Get resp ''Content-Type'')) \<and>
           headers rsp ''Content-Disposition'' =
             Some (''attachment; filename=\"'' @ sanitizeFilename (audio_title (audio_lines out))
                     @ ''.'' @ spec_ext (Header_Get resp ''Content-Type'') @ ''\"'')"
proof -
  from audio_lines_newline [OF assms(4)] obtain x y where "audio_lines out = [x, y]" "y \<noteq> []"
    by blast
  then have "\<not> no_audio_url (audio_lines out)" by (simp add: no_audio_url_def)
  then have a: "audio en r s =
      audio_proxy en (audio_title (audio_lines out)) (TrimSpace (audio_lines out ! 1))"
    by (simp add: audio_after_exec [OF assms(1-3)])
  have st: "\<And>rsp. audio_proxy en (audio_title (audio_lines out)) (TrimSpace (audio_lines out ! 1))
      = Responded rsp \<Longrightarrow> status rsp = 200"
    using assms(5,6) by (auto simp: audio_proxy_def Let_def)
  show ?thesis
    using audio_proxy_extension [OF assms(5,6), of "audio_title (audio_lines out)"] st
    unfolding a by blast
qed

definition serves :: "string \<Rightarrow> env" where
  "serves ct =
     offline\<lparr>Exec := (\<lambda>bin args. Inr sample_output),
             Do := (\<lambda>url. if url = ''https://example/media.m4a''
                      then Inr \<lparr>Header = [''Content-Type'' \<mapsto> ct], Body = ''bytes'', BodyErr = None\<rparr>
                      else Inl ''unsupported protocol scheme'')\<rparr>"

theorem audio_extension_from_content_type_witness:
  "Method get_request \<noteq> ''OPTIONS'' \<and> query_url get_request \<noteq> [] \<and>
   sample_output = ''My Title\<newline>https://example/media.m4a'' \<and>
   CHR ''\<newline>'' \<in> set (TrimSpace sample_output) \<and>
   (\<exists>rsp. audio (serves ''audio/webm; codecs=opus'') get_request installed_2024_01 = Responded rsp \<and>
          status rsp = 200 \<and>
          headers rsp ''X-Video-Extension'' = Some ''webm'' \<and>
          headers rsp ''Content-Disposition'' = Some ''attachment; filename=\"My Title.webm\"'') \<and>
   (\<exists>rsp. audio (serves ''audio/mp4'') get_request installed_2024_01 = Responded rsp \<and>
          status rsp = 200 \<and>
          headers rsp ''X-Video-Extension'' = Some ''m4a'' \<and>
          headers rsp ''Content-Disposition'' = Some ''attachment; filename=\"My Title.m4a\"'')"
proof -
  have m: "Method get_request \<noteq> ''OPTIONS''" and q: "query_url get_request \<noteq> []"
    by (simp_all add: get_request_def)
  have e: "\<And>ct. Exec (serves ct) (ytdlpPath installed_2024_01) (audio_args (query_url get_request))
      = Inr sample_output"
    by (simp add: serves_def offline_def)
  have tr: "TrimSpace sample_output = sample_output"
    by (simp add: sample_output_def strings_eval)
  have nl: "CHR ''\<newline>'' \<in> set (TrimSpace sample_output)"
    by (simp add: tr) (simp add: sample_output_def)
  have u: "TrimSpace (audio_lines sample_output ! 1) = ''https://example/media.m4a''"
  proof -
    have "audio_lines sample_output ! 1 = ''https://example/media.m4a''"
      by (simp add: sample_lines)
    then show ?thesis by (simp only: TrimSpace_sample_url)
  qed
  have n: "\<And>ct. NewRequestErr (serves ct) (TrimSpace (audio_lines sample_output ! 1)) = None"
    by (simp add: serves_def offline_def)
  have d: "\<And>ct. Do (serves ct) (TrimSpace (audio_lines sample_output ! 1))
      = Inr \<lparr>Header = [''Content-Type'' \<mapsto> ct], Body = ''bytes'', BodyErr = None\<rparr>"
    unfolding u by (simp add: serves_def offline_def)
  have w: "spec_ext ''audio/webm; codecs=opus'' = ''webm''"
    using audio_ext_spec [of "''audio/webm; codecs=opus''"] by (simp add: audio_ext_def strings_eval)
  have a: "spec_ext ''audio/mp4'' = ''m4a''"
    using audio_ext_spec [of "''audio/mp4''"] by (simp add: audio_ext_def strings_eval)
  have t: "sanitizeFilename (audio_title (audio_lines sample_output)) = ''My Title''"
    by (simp add: sample_lines audio_title_def sanitize_eval)
  have so: "sample_output = ''My Title\<newline>https://example/media.m4a''"
    by (simp add: sample_output_def)
  show ?thesis
    using audio_extension_from_content_type [OF m q e nl n d, of "''audio/webm; codecs=opus''"]
      audio_extension_from_content_type [OF m q e nl n d, of "''audio/mp4''"] m q nl w a t so
    by (simp add: Header_Get_def)
qed

end
